theory Spec2Isabelle
  imports Main "HOL-Library.AList"
begin

section \<open>Schema management of the cqlengine object mapper\<close>

text \<open>
  A shallow embedding of \<^verbatim>\<open>cassandra/cqlengine/management.py\<close>: the functions that
  compare a declared table or user type with the metadata of a live cluster and issue
  the statements that bring the cluster up to the declaration.

  Python exceptions are values of \<open>exn\<close>; a function that can raise returns a
  \<open>result\<close>. The cluster metadata, the statements handed to \<^verbatim>\<open>execute\<close>, the types
  registered and the messages logged at level info or above are the fields of \<open>world\<close>,
  which every effectful function takes and returns.
\<close>

subsection \<open>Exceptions and results\<close>

datatype exn =
    CQLEngineException string
  | KeyError string
  | ValueError string
  | AttributeError string
  | DriverError string string
  \<comment> \<open>\<open>DriverError cls msg\<close>: an exception of any class \<open>cls\<close> that does not derive from
      \<^verbatim>\<open>CQLEngineException\<close>, as the driver's session raises them\<close>

datatype 'a result = Return 'a | Raise exn

fun exn_message :: "exn \<Rightarrow> string" where
  "exn_message (CQLEngineException m) = m"
| "exn_message (KeyError m) = m"
| "exn_message (ValueError m) = m"
| "exn_message (AttributeError m) = m"
| "exn_message (DriverError c m) = m"

subsection \<open>Python string operations\<close>

definition sq :: char where "sq = CHR 0x27"
definition dq :: char where "dq = CHR 0x22"

definition is_space :: "char \<Rightarrow> bool" where
  "is_space c \<longleftrightarrow> c \<in> set [CHR '' '', CHR 0x09, CHR 0x0A, CHR 0x0B, CHR 0x0C, CHR 0x0D]"

definition strip :: "string \<Rightarrow> string" where
  \<comment> \<open>\<^verbatim>\<open>s.strip()\<close>\<close>
  "strip s = rev (dropWhile is_space (rev (dropWhile is_space s)))"

fun split_on :: "char \<Rightarrow> string \<Rightarrow> string list" where
  \<comment> \<open>\<^verbatim>\<open>s.split(c)\<close> for a one-character separator: one more part than separators\<close>
  "split_on c [] = [[]]"
| "split_on c (x # xs) =
     (if x = c then [] # split_on c xs
      else (case split_on c xs of
              p # ps \<Rightarrow> (x # p) # ps
            | [] \<Rightarrow> [[x]]))"

fun find_char :: "char \<Rightarrow> string \<Rightarrow> nat option" where
  \<comment> \<open>\<^verbatim>\<open>s.find(c)\<close>: the first index of \<open>c\<close>, \<open>None\<close> for Python's \<open>-1\<close>\<close>
  "find_char c [] = None"
| "find_char c (x # xs) =
     (if x = c then Some 0
      else (case find_char c xs of None \<Rightarrow> None | Some i \<Rightarrow> Some (Suc i)))"

definition rfind_char :: "char \<Rightarrow> string \<Rightarrow> nat option" where
  \<comment> \<open>\<^verbatim>\<open>s.rfind(c)\<close>: the last index of \<open>c\<close>\<close>
  "rfind_char c s =
     (case find_char c (rev s) of
        None \<Rightarrow> None
      | Some i \<Rightarrow> Some (length s - 1 - i))"

definition slice :: "nat \<Rightarrow> nat \<Rightarrow> string \<Rightarrow> string" where
  \<comment> \<open>\<^verbatim>\<open>s[i:j]\<close> for non-negative \<open>i\<close>, \<open>j\<close>; empty when \<open>j \<le> i\<close>\<close>
  "slice i j s = take (j - i) (drop i s)"

definition replace_char :: "char \<Rightarrow> char \<Rightarrow> string \<Rightarrow> string" where
  \<comment> \<open>\<^verbatim>\<open>s.replace(a, b)\<close> for one-character \<open>a\<close>, \<open>b\<close>\<close>
  "replace_char a b s = map (\<lambda>c. if c = a then b else c) s"

fun starts_with :: "string \<Rightarrow> string \<Rightarrow> bool" where
  "starts_with [] s = True"
| "starts_with (p # ps) [] = False"
| "starts_with (p # ps) (c # cs) = (p = c \<and> starts_with ps cs)"

fun contains :: "string \<Rightarrow> string \<Rightarrow> bool" where
  \<comment> \<open>\<^verbatim>\<open>p in s\<close> on strings\<close>
  "contains p [] = (p = [])"
| "contains p (c # cs) = (starts_with p (c # cs) \<or> contains p cs)"

fun join :: "string \<Rightarrow> string list \<Rightarrow> string" where
  \<comment> \<open>\<^verbatim>\<open>sep.join(parts)\<close>\<close>
  "join sep [] = []"
| "join sep [p] = p"
| "join sep (p # q # ps) = p @ sep @ join sep (q # ps)"

subsection \<open>Table options\<close>

text \<open>
  A normalised option value is either the stripped text of a scalar or the dictionary
  that \<^verbatim>\<open>json.loads\<close> returned for a map literal. Dictionaries are lists of items in
  insertion order; \<open>map_of\<close> is the lookup.
\<close>

datatype json =
    JString string
  | JNumber int
  | JBool bool
  | JNull
  | JArray "json list"
  | JObject "(string \<times> json) list"

datatype optval = Str string | Dict "(string \<times> json) list"

type_synonym options = "(string \<times> optval) list"

type_synonym json_loads = "string \<Rightarrow> (string \<times> json) list result"
  \<comment> \<open>Python's \<^verbatim>\<open>json.loads\<close> on a text that starts with a brace: a dictionary, or
      the exception raised\<close>

definition option_from_string :: "json_loads \<Rightarrow> string \<Rightarrow> (string \<times> optval) result" where
  \<comment> \<open>the body of the loop of \<^verbatim>\<open>_options_map_from_strings\<close>\<close>
  "option_from_string loads option =
     (case split_on (CHR ''='') option of
        [name, value] \<Rightarrow>
          (case find_char (CHR ''{'') value of
             Some i \<Rightarrow>
               (let j1 = (case rfind_char (CHR ''}'') value of None \<Rightarrow> 0 | Some j \<Rightarrow> j + 1);
                    text = replace_char sq dq (slice i j1 value)
                in case loads text of
                     Return d \<Rightarrow> Return (strip name, Dict d)
                   | Raise e \<Rightarrow> Raise e)
           | None \<Rightarrow> Return (strip name, Str (strip value)))
      | _ \<Rightarrow> Raise (ValueError ''wrong number of values to unpack''))"

fun options_map_loop :: "json_loads \<Rightarrow> string list \<Rightarrow> options \<Rightarrow> options result" where
  "options_map_loop loads [] options = Return options"
| "options_map_loop loads (option # rest) options =
     (case option_from_string loads option of
        Return (name, value) \<Rightarrow> options_map_loop loads rest (AList.update name value options)
      | Raise e \<Rightarrow> Raise e)"

definition options_map_from_strings :: "json_loads \<Rightarrow> string list \<Rightarrow> options result" where
  \<comment> \<open>\<^verbatim>\<open>_options_map_from_strings\<close>\<close>
  "options_map_from_strings loads option_strings = options_map_loop loads option_strings []"

fun nested_differs :: "(string \<times> json) list \<Rightarrow> (string \<times> json) list \<Rightarrow> bool" where
  \<comment> \<open>the inner loop of \<^verbatim>\<open>_update_options\<close> over \<^verbatim>\<open>value.items()\<close>: a missing key
      (the \<^verbatim>\<open>KeyError\<close> handler) or a different value puts the option in the update\<close>
  "nested_differs [] existing_value = False"
| "nested_differs ((k, v) # items) existing_value =
     (case map_of existing_value k of
        None \<Rightarrow> True
      | Some ev \<Rightarrow> (if ev \<noteq> v then True else nested_differs items existing_value))"

definition repr_keys :: "string list \<Rightarrow> string" where
  \<comment> \<open>the text of a list of keys in an error message\<close>
  "repr_keys ks = ''['' @ join '', '' (map (\<lambda>k. [sq] @ k @ [sq]) ks) @ '']''"

definition invalid_option_message :: "string \<Rightarrow> options \<Rightarrow> string" where
  "invalid_option_message name existing_options =
     ''Invalid table option: '' @ [sq] @ name @ [sq] @ ''; known options: ''
       @ repr_keys (map fst existing_options)"

fun diff_options :: "options \<Rightarrow> options \<Rightarrow> options \<Rightarrow> options result" where
  \<comment> \<open>the loop of \<^verbatim>\<open>_update_options\<close> over \<^verbatim>\<open>model_options.items()\<close>, with
      \<^verbatim>\<open>update_options\<close> as accumulator\<close>
  "diff_options [] existing_options update_options = Return update_options"
| "diff_options ((name, value) # rest) existing_options update_options =
     (case map_of existing_options name of
        None \<Rightarrow> Raise (KeyError (invalid_option_message name existing_options))
      | Some (Str s) \<Rightarrow>
          diff_options rest existing_options
            (if value \<noteq> Str s then AList.update name value update_options else update_options)
      | Some (Dict existing_value) \<Rightarrow>
          (case value of
             Str s \<Rightarrow> Raise (AttributeError ''str object has no attribute items'')
           | Dict items \<Rightarrow>
               diff_options rest existing_options
                 (if nested_differs items existing_value
                  then AList.update name value update_options else update_options)))"

subsection \<open>Declared schema: columns, user types, table models\<close>

text \<open>
  A column carries what the functions read from it: its \<^verbatim>\<open>db_field_name\<close>, the flags
  \<^verbatim>\<open>primary_key\<close>, \<^verbatim>\<open>partition_key\<close> and \<^verbatim>\<open>index\<close>, the text of
  \<^verbatim>\<open>get_column_def()\<close>, and its value type, which is plain, a container of columns or
  a user type. A user type is its \<^verbatim>\<open>type_name()\<close> and its ordered \<^verbatim>\<open>_fields\<close>
  (\<open>type_fields\<close>).
  Python compares user types by class identity; here two types are the same when they
  have the same name and fields.
\<close>

datatype column =
  Column (db_field_name: string) (primary_key: bool) (partition_key: bool) (index: bool)
         (column_def: string) (value_type: coltype)
and coltype = Plain | Container "column list" | UserDefinedType usertype
and usertype = UserType (type_name: string) (type_fields: "(string \<times> column) list")

record table_model =
  is_model :: bool  \<comment> \<open>\<^verbatim>\<open>issubclass(model, Model)\<close>\<close>
  is_abstract :: bool  \<comment> \<open>\<^verbatim>\<open>model.__abstract__\<close>\<close>
  keyspace :: string  \<comment> \<open>\<^verbatim>\<open>model._get_keyspace()\<close>\<close>
  raw_column_family_name :: string  \<comment> \<open>\<^verbatim>\<open>model._raw_column_family_name()\<close>\<close>
  columns :: "(string \<times> column) list"  \<comment> \<open>\<^verbatim>\<open>model._columns\<close>, an ordered dictionary\<close>
  option_strings :: "string list"
    \<comment> \<open>\<^verbatim>\<open>TableMetadataV3._make_option_strings(model.__options__ or {})\<close>, the clauses
        the driver renders for the declared options\<close>

fun resolve_udts :: "column \<Rightarrow> usertype list" where
  \<comment> \<open>Modelled from the spec: \<^verbatim>\<open>columns.resolve_udts\<close> is not among the sources. It
      resolves the nested user types reachable from a column: those of the sub-columns
      first, then the column's own type.\<close>
  "resolve_udts (Column n pk pa ix cd Plain) = []"
| "resolve_udts (Column n pk pa ix cd (Container cs)) = concat (map resolve_udts cs)"
| "resolve_udts (Column n pk pa ix cd (UserDefinedType (UserType tn fs))) =
     concat (map (\<lambda>f. resolve_udts (snd f)) fs) @ [UserType tn fs]"

subsection \<open>Live schema: the metadata of the cluster\<close>

record user_type_meta =
  ut_field_names :: "string list"  \<comment> \<open>\<^verbatim>\<open>defined_types[type_name].field_names\<close>\<close>

record table_meta =
  tm_columns :: "string list"  \<comment> \<open>\<^verbatim>\<open>table_meta.columns.keys()\<close>\<close>
  tm_primary_key :: "string list"  \<comment> \<open>the names of \<^verbatim>\<open>table_meta.primary_key\<close>\<close>
  tm_indexes :: "string list"  \<comment> \<open>the keys of \<^verbatim>\<open>table_meta.indexes\<close>\<close>
  tm_option_strings :: "string list"
    \<comment> \<open>\<^verbatim>\<open>table_meta._make_option_strings(table_meta.options)\<close>\<close>

record keyspace_meta =
  tables :: "string \<rightharpoonup> table_meta"
  user_types :: "string \<rightharpoonup> user_type_meta"

type_synonym metadata = "string \<rightharpoonup> keyspace_meta"
  \<comment> \<open>\<^verbatim>\<open>get_cluster().metadata.keyspaces\<close>\<close>

subsection \<open>Statements, the driver and the world\<close>

text \<open>
  A statement is kept with the values its text is formatted from; a table is named by
  its keyspace and raw name, where the text has \<^verbatim>\<open>model.column_family_name()\<close>.
\<close>

datatype stmt =
    CreateKeyspace string bool string "(string \<times> string) list"
      \<comment> \<open>\<^verbatim>\<open>KeyspaceMetadata(name, durable_writes, strategy_class, strategy_options).as_cql_query()\<close>\<close>
  | DropKeyspace string  \<comment> \<open>\<^verbatim>\<open>DROP KEYSPACE name\<close>\<close>
  | CreateTable table_model  \<comment> \<open>\<^verbatim>\<open>_get_create_table(model)\<close>\<close>
  | AlterTableAdd string string column  \<comment> \<open>\<^verbatim>\<open>ALTER TABLE cf_name add column_def\<close>\<close>
  | AlterTableWith string string options  \<comment> \<open>\<^verbatim>\<open>ALTER TABLE cf_name WITH options\<close>\<close>
  | CreateIndex string string string string
      \<comment> \<open>\<^verbatim>\<open>CREATE INDEX index_name ON cf_name ("db_field_name")\<close>, as index name,
          keyspace, raw table name, field name\<close>
  | DropTable string string  \<comment> \<open>\<^verbatim>\<open>DROP TABLE cf_name;\<close>\<close>
  | CreateType string usertype  \<comment> \<open>\<^verbatim>\<open>get_create_type(type_model, ks_name)\<close>\<close>
  | AlterTypeAdd string string column  \<comment> \<open>\<^verbatim>\<open>ALTER TYPE ks_name.type_name ADD column_def\<close>\<close>

datatype log =
    WarnSchemaManagement
  | InfoCreatingKeyspace string
  | InfoKeyspaceExists string
  | InfoTableFieldsNotInModel string "string set"
  | InfoTypeNoSync string string
  | InfoTypeFieldsNotInModel string string "string set"

record driver =
  execute :: "stmt \<Rightarrow> metadata \<Rightarrow> metadata result"
    \<comment> \<open>\<^verbatim>\<open>connection.execute\<close>: the metadata the cluster shows afterwards, or the
        exception raised\<close>
  refresh_user_type_metadata :: "string \<Rightarrow> string \<Rightarrow> metadata \<Rightarrow> metadata"
  json_loads :: json_loads

record world =
  keyspaces :: metadata
  executed :: "stmt list"  \<comment> \<open>every statement handed to \<^verbatim>\<open>execute\<close>, in order\<close>
  registered :: "(string \<times> usertype) list"
    \<comment> \<open>every \<^verbatim>\<open>type_model.register_for_keyspace(ks_name)\<close>, in order\<close>
  logged :: "log list"
  env_flag :: bool  \<comment> \<open>\<^verbatim>\<open>os.getenv(CQLENG_ALLOW_SCHEMA_MANAGEMENT)\<close> is set and not empty\<close>

definition do_execute :: "driver \<Rightarrow> stmt \<Rightarrow> world \<Rightarrow> unit result \<times> world" where
  "do_execute drv q w =
     (case execute drv q (keyspaces w) of
        Return md \<Rightarrow> (Return (), w\<lparr>keyspaces := md, executed := executed w @ [q]\<rparr>)
      | Raise e \<Rightarrow> (Raise e, w\<lparr>executed := executed w @ [q]\<rparr>))"

definition log_info :: "log \<Rightarrow> world \<Rightarrow> world" where
  "log_info l w = w\<lparr>logged := logged w @ [l]\<rparr>"

definition register_for_keyspace :: "usertype \<Rightarrow> string \<Rightarrow> world \<Rightarrow> world" where
  "register_for_keyspace type_model ks_name w =
     w\<lparr>registered := registered w @ [(ks_name, type_model)]\<rparr>"

fun for_each :: "('a \<Rightarrow> world \<Rightarrow> unit result \<times> world) \<Rightarrow> 'a list \<Rightarrow> world \<Rightarrow> unit result \<times> world" where
  \<comment> \<open>a \<^verbatim>\<open>for\<close> loop whose body may raise\<close>
  "for_each body [] w = (Return (), w)"
| "for_each body (x # xs) w =
     (case body x w of
        (Return u, w') \<Rightarrow> for_each body xs w'
      | (Raise e, w') \<Rightarrow> (Raise e, w'))"

definition allow_schema_modification :: "world \<Rightarrow> bool \<times> world" where
  \<comment> \<open>\<^verbatim>\<open>_allow_schema_modification\<close>: warns when the variable is not set, and allows\<close>
  "allow_schema_modification w =
     (True, if env_flag w then w else log_info WarnSchemaManagement w)"

subsection \<open>Keyspaces\<close>

definition create_keyspace ::
  "driver \<Rightarrow> string \<Rightarrow> bool \<Rightarrow> string \<Rightarrow> (string \<times> string) list \<Rightarrow> world \<Rightarrow> unit result \<times> world" where
  \<comment> \<open>\<^verbatim>\<open>_create_keyspace\<close>\<close>
  "create_keyspace drv name durable_writes strategy_class strategy_options w =
     (case allow_schema_modification w of
        (False, w0) \<Rightarrow> (Return (), w0)
      | (True, w0) \<Rightarrow>
          (if name \<notin> dom (keyspaces w0)
           then do_execute drv (CreateKeyspace name durable_writes strategy_class strategy_options)
                  (log_info (InfoCreatingKeyspace name) w0)
           else (Return (), log_info (InfoKeyspaceExists name) w0)))"

definition drop_keyspace :: "driver \<Rightarrow> string \<Rightarrow> world \<Rightarrow> unit result \<times> world" where
  "drop_keyspace drv name w =
     (case allow_schema_modification w of
        (False, w0) \<Rightarrow> (Return (), w0)
      | (True, w0) \<Rightarrow>
          (if name \<in> dom (keyspaces w0) then do_execute drv (DropKeyspace name) w0
           else (Return (), w0)))"

subsection \<open>User types\<close>

definition alter_type_field :: "driver \<Rightarrow> string \<Rightarrow> string \<Rightarrow> string list \<Rightarrow> column \<Rightarrow> world \<Rightarrow> unit result \<times> world" where
  \<comment> \<open>the body of the loop of \<^verbatim>\<open>_sync_type\<close> over the fields of a type that exists\<close>
  "alter_type_field drv ks_name tname defined_fields field w =
     (if db_field_name field \<notin> set defined_fields
      then do_execute drv (AlterTypeAdd ks_name tname field) w
      else (Return (), w))"

definition log_type_fields :: "string \<Rightarrow> usertype \<Rightarrow> string list \<Rightarrow> world \<Rightarrow> world" where
  \<comment> \<open>the end of \<^verbatim>\<open>_sync_type\<close> for a type that exists: equal counts log that no
      synchronization was required and return, else the symmetric difference is logged
      when it is not empty\<close>
  "log_type_fields ks_name type_model defined_fields w =
     (let model_fields = set (map (\<lambda>f. db_field_name (snd f)) (type_fields type_model))
      in if length defined_fields = card model_fields
         then log_info (InfoTypeNoSync ks_name (type_name type_model)) w
         else (let db_fields_not_in_model =
                     (model_fields - set defined_fields) \<union> (set defined_fields - model_fields)
               in if db_fields_not_in_model \<noteq> {}
                  then log_info (InfoTypeFieldsNotInModel ks_name (type_name type_model)
                                   db_fields_not_in_model) w
                  else w))"

definition sync_type_body :: "driver \<Rightarrow> string \<Rightarrow> usertype \<Rightarrow> world \<Rightarrow> unit result \<times> world" where
  \<comment> \<open>\<^verbatim>\<open>_sync_type\<close> after the loop over the sub-types: the type itself\<close>
  "sync_type_body drv ks_name type_model w =
     (case keyspaces w ks_name of
        None \<Rightarrow> (Raise (KeyError ks_name), w)
      | Some ks_meta \<Rightarrow>
          (case user_types ks_meta (type_name type_model) of
             None \<Rightarrow>
               (case do_execute drv (CreateType ks_name type_model) w of
                  (Raise e, w1) \<Rightarrow> (Raise e, w1)
                | (Return u, w1) \<Rightarrow>
                    (Return (),
                     register_for_keyspace type_model ks_name
                       (w1\<lparr>keyspaces :=
                             refresh_user_type_metadata drv ks_name (type_name type_model)
                               (keyspaces w1)\<rparr>)))
           | Some defined \<Rightarrow>
               (case for_each (alter_type_field drv ks_name (type_name type_model)
                                 (ut_field_names defined))
                       (map snd (type_fields type_model)) w of
                  (Raise e, w1) \<Rightarrow> (Raise e, w1)
                | (Return u, w1) \<Rightarrow>
                    (Return (),
                     log_type_fields ks_name type_model (ut_field_names defined)
                       (register_for_keyspace type_model ks_name w1)))))"

text \<open>
  \<^verbatim>\<open>syncd_sub_types = omit_subtypes or set()\<close>: an empty set is false in Python, so the
  callee works on the caller's set only when that set is not empty, and on a fresh set
  otherwise. The functions below return the caller's set as it is after the call.
\<close>

function sync_type' :: "driver \<Rightarrow> string \<Rightarrow> usertype \<Rightarrow> usertype set \<Rightarrow> world \<Rightarrow> usertype set result \<times> world"
  and sync_fields :: "driver \<Rightarrow> string \<Rightarrow> column list \<Rightarrow> usertype set \<Rightarrow> world \<Rightarrow> usertype set result \<times> world"
  and sync_udts :: "driver \<Rightarrow> string \<Rightarrow> usertype list \<Rightarrow> usertype set \<Rightarrow> world \<Rightarrow> usertype set result \<times> world"
where
  "sync_type' drv ks_name type_model omit_subtypes w =
     (case sync_fields drv ks_name (map snd (type_fields type_model)) omit_subtypes w of
        (Raise e, w1) \<Rightarrow> (Raise e, w1)
      | (Return syncd_sub_types, w1) \<Rightarrow>
          (case sync_type_body drv ks_name type_model w1 of
             (Raise e, w2) \<Rightarrow> (Raise e, w2)
           | (Return u, w2) \<Rightarrow>
               (Return (if omit_subtypes = {} then omit_subtypes else syncd_sub_types), w2)))"
| "sync_fields drv ks_name [] syncd_sub_types w = (Return syncd_sub_types, w)"
| "sync_fields drv ks_name (field # rest) syncd_sub_types w =
     (case sync_udts drv ks_name
             (filter (\<lambda>u. u \<notin> syncd_sub_types) (resolve_udts field)) syncd_sub_types w of
        (Raise e, w1) \<Rightarrow> (Raise e, w1)
      | (Return syncd1, w1) \<Rightarrow> sync_fields drv ks_name rest syncd1 w1)"
| "sync_udts drv ks_name [] syncd_sub_types w = (Return syncd_sub_types, w)"
| "sync_udts drv ks_name (udt # rest) syncd_sub_types w =
     (case sync_type' drv ks_name udt syncd_sub_types w of
        (Raise e, w1) \<Rightarrow> (Raise e, w1)
      | (Return syncd1, w1) \<Rightarrow> sync_udts drv ks_name rest (insert udt syncd1) w1)"
  by pat_completeness auto

fun max_size :: "('a \<Rightarrow> nat) \<Rightarrow> 'a list \<Rightarrow> nat" where
  "max_size f [] = 0"
| "max_size f (x # xs) = max (f x) (max_size f xs)"

lemma max_size_bound: "(\<And>x. x \<in> set xs \<Longrightarrow> f x < n) \<Longrightarrow> 0 < n \<Longrightarrow> max_size f xs < n"
  by (induction xs) auto

lemma max_size_filter: "max_size f (filter P xs) \<le> max_size f xs"
  by (induction xs) auto

lemma resolve_udts_size: "u \<in> set (resolve_udts c) \<Longrightarrow> size u < size c"
proof (induction c arbitrary: u rule: resolve_udts.induct)
  case (1 n pk pa ix cd)
  then show ?case by simp
next
  case (2 n pk pa ix cd cs)
  then obtain c where c: "c \<in> set cs" "u \<in> set (resolve_udts c)" by auto
  then have "size u < size c" using 2 by blast
  moreover have "size c \<le> size_list size cs" using c(1) by (simp add: size_list_estimation')
  ultimately show ?case by simp
next
  case (3 n pk pa ix cd tn fs)
  show ?case
  proof (cases "u = UserType tn fs")
    case True
    then show ?thesis by simp
  next
    case False
    then obtain f where f: "f \<in> set fs" "u \<in> set (resolve_udts (snd f))" using 3(2) by auto
    then have "size u < size (snd f)" using 3(1) by blast
    moreover have "size (snd f) \<le> size_prod (\<lambda>x. 0) size f" by (cases f) simp
    moreover have "size_prod (\<lambda>x. 0) size f \<le> size_list (size_prod (\<lambda>x. 0) size) fs"
      using f(1) by (simp add: size_list_estimation')
    ultimately show ?thesis by simp
  qed
qed

lemma field_size: "f \<in> set (type_fields t) \<Longrightarrow> size (snd f) < size t"
proof -
  assume f: "f \<in> set (type_fields t)"
  have "size (snd f) \<le> size_prod (\<lambda>x. 0) size f" by (cases f) simp
  moreover have "size_prod (\<lambda>x. 0) size f \<le> size_list (size_prod (\<lambda>x. 0) size) (type_fields t)"
    using f by (simp add: size_list_estimation')
  ultimately show ?thesis by (cases t) simp
qed

termination sync_type'
proof (relation "inv_image (less_than <*lex*> less_than <*lex*> less_than)
    (\<lambda>x. case x of
       Inl (drv, ks, t, s, w) \<Rightarrow> (size t, 0::nat, 0::nat)
     | Inr (Inl (drv, ks, cs, s, w)) \<Rightarrow> (max_size size cs, 2, length cs)
     | Inr (Inr (drv, ks, us, s, w)) \<Rightarrow> (max_size size us, 1, length us))", goal_cases)
  case 1
  show ?case by (intro wf_inv_image wf_lex_prod wf_less_than)
next
  case (2 drv ks_name type_model omit_subtypes w)
  have "max_size size (map snd (type_fields type_model)) < size type_model"
    by (rule max_size_bound) (auto dest: field_size, cases type_model, simp)
  then show ?case by simp
next
  case (3 drv ks_name field rest syncd_sub_types w)
  have "max_size size (filter (\<lambda>u. u \<notin> syncd_sub_types) (resolve_udts field)) < size field"
    by (rule max_size_bound) (auto dest: resolve_udts_size, cases field, simp)
  then show ?case by auto
next
  case 4
  then show ?case by auto
next
  case 5
  then show ?case by auto
next
  case 6
  then show ?case by auto
qed

subsection \<open>Tables\<close>

definition get_non_pk_field_names :: "table_meta \<Rightarrow> string list" where
  \<comment> \<open>\<^verbatim>\<open>_get_non_pk_field_names\<close>\<close>
  "get_non_pk_field_names tm = filter (\<lambda>name. name \<notin> set (tm_primary_key tm)) (tm_columns tm)"

definition get_table_metadata :: "table_model \<Rightarrow> world \<Rightarrow> table_meta result" where
  \<comment> \<open>\<^verbatim>\<open>_get_table_metadata\<close>\<close>
  "get_table_metadata model w =
     (case keyspaces w (keyspace model) of
        None \<Rightarrow> Raise (KeyError (keyspace model))
      | Some ks_meta \<Rightarrow>
          (case tables ks_meta (raw_column_family_name model) of
             None \<Rightarrow> Raise (KeyError (raw_column_family_name model))
           | Some tm \<Rightarrow> Return tm))"

definition update_options :: "driver \<Rightarrow> table_model \<Rightarrow> world \<Rightarrow> bool result \<times> world" where
  \<comment> \<open>\<^verbatim>\<open>_update_options\<close>; \<^verbatim>\<open>set(...)\<close> of the live clauses drops duplicates\<close>
  "update_options drv model w =
     (case get_table_metadata model w of
        Raise e \<Rightarrow> (Raise e, w)
      | Return tm \<Rightarrow>
          (case options_map_from_strings (json_loads drv) (remdups (tm_option_strings tm)) of
             Raise e \<Rightarrow> (Raise e, w)
           | Return existing_options \<Rightarrow>
               (case options_map_from_strings (json_loads drv) (option_strings model) of
                  Raise e \<Rightarrow> (Raise e, w)
                | Return model_options \<Rightarrow>
                    (case diff_options model_options existing_options [] of
                       Raise e \<Rightarrow> (Raise e, w)
                     | Return upd \<Rightarrow>
                         (if upd \<noteq> []
                          then (case do_execute drv
                                       (AlterTableWith (keyspace model) (raw_column_family_name model) upd) w of
                                  (Raise e, w1) \<Rightarrow> (Raise e, w1)
                                | (Return u, w1) \<Rightarrow> (Return True, w1))
                          else (Return False, w))))))"

fun sync_table_udts :: "driver \<Rightarrow> string \<Rightarrow> usertype list \<Rightarrow> usertype set \<Rightarrow> world \<Rightarrow> usertype set result \<times> world" where
  \<comment> \<open>the inner loop of \<^verbatim>\<open>sync_table\<close> over the types of one column; nothing is added
      to \<^verbatim>\<open>syncd_types\<close> here\<close>
  "sync_table_udts drv ks_name [] syncd_types w = (Return syncd_types, w)"
| "sync_table_udts drv ks_name (udt # rest) syncd_types w =
     (case sync_type' drv ks_name udt syncd_types w of
        (Raise e, w1) \<Rightarrow> (Raise e, w1)
      | (Return syncd1, w1) \<Rightarrow> sync_table_udts drv ks_name rest syncd1 w1)"

fun sync_table_types :: "driver \<Rightarrow> string \<Rightarrow> column list \<Rightarrow> usertype set \<Rightarrow> world \<Rightarrow> usertype set result \<times> world" where
  \<comment> \<open>the loop of \<^verbatim>\<open>sync_table\<close> over \<^verbatim>\<open>model._columns.values()\<close>\<close>
  "sync_table_types drv ks_name [] syncd_types w = (Return syncd_types, w)"
| "sync_table_types drv ks_name (col # rest) syncd_types w =
     (case sync_table_udts drv ks_name
             (filter (\<lambda>u. u \<notin> syncd_types) (resolve_udts col)) syncd_types w of
        (Raise e, w1) \<Rightarrow> (Raise e, w1)
      | (Return syncd1, w1) \<Rightarrow> sync_table_types drv ks_name rest syncd1 w1)"

definition already_exists :: "exn \<Rightarrow> bool" where
  \<comment> \<open>the exception is caught by \<^verbatim>\<open>except CQLEngineException\<close> and not raised again\<close>
  "already_exists ex =
     (case ex of
        CQLEngineException msg \<Rightarrow> contains ''Cannot add already existing column family'' msg
      | _ \<Rightarrow> False)"

definition create_table :: "driver \<Rightarrow> table_model \<Rightarrow> world \<Rightarrow> unit result \<times> world" where
  \<comment> \<open>\<^verbatim>\<open>sync_table\<close>, the table is not in the metadata\<close>
  "create_table drv model w =
     (case do_execute drv (CreateTable model) w of
        (Return u, w1) \<Rightarrow> (Return (), w1)
      | (Raise ex, w1) \<Rightarrow> (if already_exists ex then (Return (), w1) else (Raise ex, w1)))"

definition add_column :: "driver \<Rightarrow> table_model \<Rightarrow> string list \<Rightarrow> string \<times> column \<Rightarrow> world \<Rightarrow> unit result \<times> world" where
  \<comment> \<open>the body of the loop of \<^verbatim>\<open>sync_table\<close> over \<^verbatim>\<open>model._columns.items()\<close>\<close>
  "add_column drv model field_names item w =
     (case item of (name, col) \<Rightarrow>
        if primary_key col \<or> partition_key col then (Return (), w)
        else if db_field_name col \<in> set field_names then (Return (), w)
        else do_execute drv
               (AlterTableAdd (keyspace model) (raw_column_family_name model) col) w)"

definition log_table_fields :: "table_model \<Rightarrow> string list \<Rightarrow> world \<Rightarrow> world" where
  \<comment> \<open>\<^verbatim>\<open>sync_table\<close> after the loop over the columns: the symmetric difference of the
      names of the declared non-key columns and the live non-key fields is logged when
      it is not empty\<close>
  "log_table_fields model field_names w =
     (let model_fields = set (map fst (filter (\<lambda>(name, col). \<not> (primary_key col \<or> partition_key col))
                                          (columns model)));
          db_fields_not_in_model =
            (model_fields - set field_names) \<union> (set field_names - model_fields)
      in if db_fields_not_in_model \<noteq> {}
         then log_info (InfoTableFieldsNotInModel (raw_column_family_name model)
                          db_fields_not_in_model) w
         else w)"

definition alter_table :: "driver \<Rightarrow> table_model \<Rightarrow> table_meta \<Rightarrow> world \<Rightarrow> unit result \<times> world" where
  \<comment> \<open>\<^verbatim>\<open>sync_table\<close>, the table is in the metadata\<close>
  "alter_table drv model tm w =
     (case for_each (add_column drv model (get_non_pk_field_names tm)) (columns model) w of
        (Raise e, w1) \<Rightarrow> (Raise e, w1)
      | (Return u, w1) \<Rightarrow>
          (case update_options drv model
                  (log_table_fields model (get_non_pk_field_names tm) w1) of
             (Raise e, w3) \<Rightarrow> (Raise e, w3)
           | (Return b, w3) \<Rightarrow> (Return (), w3)))"

definition index_name :: "string \<Rightarrow> column \<Rightarrow> string" where
  "index_name raw_cf_name col = ''index_'' @ raw_cf_name @ ''_'' @ db_field_name col"

definition create_index :: "driver \<Rightarrow> table_model \<Rightarrow> table_meta \<Rightarrow> column \<Rightarrow> world \<Rightarrow> unit result \<times> world" where
  \<comment> \<open>the body of the loop of \<^verbatim>\<open>sync_table\<close> over the indexed columns\<close>
  "create_index drv model tm col w =
     (if index_name (raw_column_family_name model) col \<in> set (tm_indexes tm) then (Return (), w)
      else do_execute drv
             (CreateIndex (index_name (raw_column_family_name model) col)
                (keyspace model) (raw_column_family_name model) (db_field_name col)) w)"

definition sync_indexes :: "driver \<Rightarrow> table_model \<Rightarrow> world \<Rightarrow> unit result \<times> world" where
  \<comment> \<open>\<^verbatim>\<open>sync_table\<close> from the second read of the table metadata on\<close>
  "sync_indexes drv model w =
     (case get_table_metadata model w of
        Raise e \<Rightarrow> (Raise e, w)
      | Return tm \<Rightarrow>
          for_each (create_index drv model tm)
            (filter index (map snd (columns model))) w)"

definition sync_table :: "driver \<Rightarrow> table_model \<Rightarrow> world \<Rightarrow> unit result \<times> world" where
  "sync_table drv model w =
     (case allow_schema_modification w of
        (False, w0) \<Rightarrow> (Return (), w0)
      | (True, w0) \<Rightarrow>
          if \<not> is_model model
          then (Raise (CQLEngineException ''Models must be derived from base Model.''), w0)
          else if is_abstract model
          then (Raise (CQLEngineException ''cannot create table from abstract model''), w0)
          else (case keyspaces w0 (keyspace model) of
                  None \<Rightarrow> (Raise (KeyError (keyspace model)), w0)
                | Some ks_meta \<Rightarrow>
                    (case sync_table_types drv (keyspace model) (map snd (columns model)) {} w0 of
                       (Raise e, w1) \<Rightarrow> (Raise e, w1)
                     | (Return syncd_types, w1) \<Rightarrow>
                         (case (case tables ks_meta (raw_column_family_name model) of
                                  None \<Rightarrow> create_table drv model w1
                                | Some tm \<Rightarrow> alter_table drv model tm w1) of
                            (Raise e, w2) \<Rightarrow> (Raise e, w2)
                          | (Return u, w2) \<Rightarrow> sync_indexes drv model w2))))"

definition drop_table :: "driver \<Rightarrow> table_model \<Rightarrow> world \<Rightarrow> unit result \<times> world" where
  "drop_table drv model w =
     (case allow_schema_modification w of
        (False, w0) \<Rightarrow> (Return (), w0)
      | (True, w0) \<Rightarrow>
          (case get_table_metadata model w0 of
             Raise e \<Rightarrow> (case e of KeyError m \<Rightarrow> (Return (), w0) | _ \<Rightarrow> (Raise e, w0))
           | Return tm \<Rightarrow>
               (case do_execute drv (DropTable (keyspace model) (raw_column_family_name model)) w0 of
                  (Raise e, w1) \<Rightarrow> (case e of KeyError m \<Rightarrow> (Return (), w1) | _ \<Rightarrow> (Raise e, w1))
                | (Return u, w1) \<Rightarrow> (Return (), w1))))"

subsection \<open>A cluster that applies every statement\<close>

text \<open>
  \<^verbatim>\<open>connection.execute\<close>, the cluster behind it and \<^verbatim>\<open>json.loads\<close> are not among the
  sources. The functions above take them as the fields of a \<open>driver\<close>. The driver below
  is the one the specification describes: a statement that is valid for the live schema
  is applied and at once visible in the metadata, any other statement is refused, and
  nothing else changes the schema.
\<close>

definition render_json :: "json \<Rightarrow> string" where
  "render_json v = (case v of JString s \<Rightarrow> s | _ \<Rightarrow> ''null'')"

definition render_option :: "string \<times> optval \<Rightarrow> string" where
  \<comment> \<open>Modelled from the spec: the clause the cluster shows for an option that was set,
      \<open>encode\<close> of the option codec, the inverse direction of \<open>decode\<close>.\<close>
  "render_option nv =
     (case nv of
        (name, Str s) \<Rightarrow> name @ '' = '' @ s
      | (name, Dict d) \<Rightarrow>
          name @ '' = {''
            @ join '', '' (map (\<lambda>(k, v). [sq] @ k @ [sq] @ '': '' @ [sq] @ render_json v @ [sq]) d)
            @ ''}'')"

definition option_name :: "string \<Rightarrow> string" where
  \<comment> \<open>the name a clause sets: the stripped text before its first \<open>=\<close>\<close>
  "option_name clause = (case split_on (CHR ''='') clause of p # ps \<Rightarrow> strip p | [] \<Rightarrow> [])"

definition set_options :: "options \<Rightarrow> string list \<Rightarrow> string list" where
  "set_options upd clauses =
     map render_option upd @ filter (\<lambda>c. option_name c \<notin> fst ` set upd) clauses"

definition created_table :: "table_model \<Rightarrow> table_meta" where
  "created_table model =
     \<lparr>tm_columns = map (\<lambda>(name, col). db_field_name col) (columns model),
      tm_primary_key = map (\<lambda>(name, col). db_field_name col)
                         (filter (\<lambda>(name, col). primary_key col) (columns model)),
      tm_indexes = [],
      tm_option_strings = option_strings model\<rparr>"

definition invalid :: "string \<Rightarrow> metadata result" where
  "invalid msg = Raise (DriverError ''InvalidRequest'' msg)"

definition with_keyspace :: "metadata \<Rightarrow> string \<Rightarrow> (keyspace_meta \<Rightarrow> keyspace_meta result) \<Rightarrow> metadata result" where
  "with_keyspace md ks f =
     (case md ks of
        None \<Rightarrow> invalid ''unknown keyspace''
      | Some km \<Rightarrow> (case f km of Return km' \<Rightarrow> Return (md(ks \<mapsto> km')) | Raise e \<Rightarrow> Raise e))"

definition with_table :: "metadata \<Rightarrow> string \<Rightarrow> string \<Rightarrow> (table_meta \<Rightarrow> table_meta result) \<Rightarrow> metadata result" where
  "with_table md ks raw f =
     with_keyspace md ks (\<lambda>km.
       case tables km raw of
         None \<Rightarrow> Raise (DriverError ''InvalidRequest'' ''unknown table'')
       | Some tm \<Rightarrow>
           (case f tm of
              Return tm' \<Rightarrow> Return (km\<lparr>tables := (tables km)(raw \<mapsto> tm')\<rparr>)
            | Raise e \<Rightarrow> Raise e))"

fun execute_ideal :: "stmt \<Rightarrow> metadata \<Rightarrow> metadata result" where
  \<comment> \<open>Modelled from the spec: the execution collaborator \<^verbatim>\<open>execute\<close> together with
      the cluster metadata it refreshes.\<close>
  "execute_ideal (CreateKeyspace name dw sc so) md =
     (if name \<in> dom md then Raise (DriverError ''AlreadyExists'' ''keyspace exists'')
      else Return (md(name \<mapsto> \<lparr>tables = Map.empty, user_types = Map.empty\<rparr>)))"
| "execute_ideal (DropKeyspace name) md =
     (if name \<in> dom md then Return (md(name := None)) else invalid ''unknown keyspace'')"
| "execute_ideal (CreateTable model) md =
     with_keyspace md (keyspace model) (\<lambda>km.
       if raw_column_family_name model \<in> dom (tables km)
       then Raise (DriverError ''AlreadyExists'' ''table exists'')
       else if \<not> distinct (map (\<lambda>(name, col). db_field_name col) (columns model))
       then Raise (DriverError ''InvalidRequest'' ''duplicate column'')
       else Return (km\<lparr>tables := (tables km)(raw_column_family_name model \<mapsto> created_table model)\<rparr>))"
| "execute_ideal (AlterTableAdd ks raw col) md =
     with_table md ks raw (\<lambda>tm.
       if db_field_name col \<in> set (tm_columns tm)
       then Raise (DriverError ''InvalidRequest'' ''column exists'')
       else Return (tm\<lparr>tm_columns := tm_columns tm @ [db_field_name col]\<rparr>))"
| "execute_ideal (AlterTableWith ks raw upd) md =
     with_table md ks raw (\<lambda>tm.
       Return (tm\<lparr>tm_option_strings := set_options upd (tm_option_strings tm)\<rparr>))"
| "execute_ideal (CreateIndex name ks raw field) md =
     with_table md ks raw (\<lambda>tm.
       if name \<in> set (tm_indexes tm) then Raise (DriverError ''InvalidRequest'' ''index exists'')
       else Return (tm\<lparr>tm_indexes := tm_indexes tm @ [name]\<rparr>))"
| "execute_ideal (DropTable ks raw) md =
     with_keyspace md ks (\<lambda>km.
       if raw \<in> dom (tables km) then Return (km\<lparr>tables := (tables km)(raw := None)\<rparr>)
       else Raise (DriverError ''InvalidRequest'' ''unknown table''))"
| "execute_ideal (CreateType ks type_model) md =
     with_keyspace md ks (\<lambda>km.
       if type_name type_model \<in> dom (user_types km)
       then Raise (DriverError ''InvalidRequest'' ''type exists'')
       else if \<not> distinct (map (\<lambda>f. db_field_name (snd f)) (type_fields type_model))
       then Raise (DriverError ''InvalidRequest'' ''duplicate field'')
       else Return (km\<lparr>user_types := (user_types km)(type_name type_model \<mapsto>
              \<lparr>ut_field_names = map (\<lambda>f. db_field_name (snd f)) (type_fields type_model)\<rparr>)\<rparr>))"
| "execute_ideal (AlterTypeAdd ks tname field) md =
     with_keyspace md ks (\<lambda>km.
       case user_types km tname of
         None \<Rightarrow> Raise (DriverError ''InvalidRequest'' ''unknown type'')
       | Some ut \<Rightarrow>
           if db_field_name field \<in> set (ut_field_names ut)
           then Raise (DriverError ''InvalidRequest'' ''field exists'')
           else Return (km\<lparr>user_types := (user_types km)(tname \<mapsto>
                  ut\<lparr>ut_field_names := ut_field_names ut @ [db_field_name field]\<rparr>)\<rparr>))"

definition ideal_driver :: "json_loads \<Rightarrow> driver" where
  "ideal_driver loads =
     \<lparr>execute = execute_ideal,
      refresh_user_type_metadata = (\<lambda>ks_name tname md. md),
      json_loads = loads\<rparr>"

text \<open>
  A reader of JSON objects whose members are strings without escapes, for running the
  functions on examples; any other text is a \<^verbatim>\<open>ValueError\<close>.
\<close>

datatype token = LBrace | RBrace | Colon | Comma | TString string

fun tokenize :: "string \<Rightarrow> string option \<Rightarrow> token list option" where
  "tokenize [] None = Some []"
| "tokenize [] (Some acc) = None"
| "tokenize (c # cs) (Some acc) =
     (if c = dq then map_option ((#) (TString (rev acc))) (tokenize cs None)
      else if c = CHR 0x5C then None
      else tokenize cs (Some (c # acc)))"
| "tokenize (c # cs) None =
     (if c = dq then tokenize cs (Some [])
      else if c = CHR ''{'' then map_option ((#) LBrace) (tokenize cs None)
      else if c = CHR ''}'' then map_option ((#) RBrace) (tokenize cs None)
      else if c = CHR '':'' then map_option ((#) Colon) (tokenize cs None)
      else if c = CHR '','' then map_option ((#) Comma) (tokenize cs None)
      else if is_space c then tokenize cs None
      else None)"

fun members :: "token list \<Rightarrow> (string \<times> json) list \<Rightarrow> (string \<times> json) list option" where
  "members [TString k, Colon, TString v, RBrace] d = Some (AList.update k (JString v) d)"
| "members (TString k # Colon # TString v # Comma # rest) d =
     members rest (AList.update k (JString v) d)"
| "members ts d = None"

definition json_loads_flat :: json_loads where
  "json_loads_flat text =
     (case tokenize text None of
        Some (LBrace # ts) \<Rightarrow>
          (if ts = [RBrace] then Return []
           else (case members ts [] of
                   Some d \<Rightarrow> Return d
                 | None \<Rightarrow> Raise (ValueError ''No JSON object could be decoded'')))
      | _ \<Rightarrow> Raise (ValueError ''No JSON object could be decoded''))"

subsection \<open>Auxiliary notions for the proofs\<close>

fun entry_differs :: "optval \<Rightarrow> optval \<Rightarrow> bool" where
  \<comment> \<open>the test of \<^verbatim>\<open>_update_options\<close> on one desired value and its live value\<close>
  "entry_differs v (Str s) = (v \<noteq> Str s)"
| "entry_differs (Dict items) (Dict d) = nested_differs items d"
| "entry_differs (Str s) (Dict d) = False"

definition in_diff :: "options \<Rightarrow> string \<times> optval \<Rightarrow> bool" where
  "in_diff live nv =
     (case map_of live (fst nv) of None \<Rightarrow> False | Some ev \<Rightarrow> entry_differs (snd nv) ev)"

definition passes :: "options \<Rightarrow> string \<times> optval \<Rightarrow> bool" where
  \<comment> \<open>the loop of \<^verbatim>\<open>_update_options\<close> gets past this desired option\<close>
  "passes live nv =
     (case map_of live (fst nv) of
        None \<Rightarrow> False
      | Some (Str s) \<Rightarrow> True
      | Some (Dict d) \<Rightarrow> (case snd nv of Str s \<Rightarrow> False | Dict items \<Rightarrow> True))"

text \<open>
  The metadata a function leaves behind is reached from the metadata it found by
  statements the driver executed and by refreshes; \<open>post\<close> adds that the statements
  handed to \<^verbatim>\<open>execute\<close> are appended to the record and all satisfy \<open>P\<close>.
\<close>

inductive steps :: "driver \<Rightarrow> (stmt \<Rightarrow> bool) \<Rightarrow> metadata \<Rightarrow> metadata \<Rightarrow> bool"
  for drv :: driver and P :: "stmt \<Rightarrow> bool"
where
  steps_refl: "steps drv P md md"
| steps_execute: "steps drv P md md1 \<Longrightarrow> P q \<Longrightarrow> execute drv q md1 = Return md2 \<Longrightarrow> steps drv P md md2"
| steps_refresh: "steps drv P md md1 \<Longrightarrow> steps drv P md (refresh_user_type_metadata drv ks n md1)"

definition post :: "driver \<Rightarrow> (stmt \<Rightarrow> bool) \<Rightarrow> world \<Rightarrow> world \<Rightarrow> bool" where
  "post drv P w w' \<longleftrightarrow>
     (\<exists>new. executed w' = executed w @ new \<and> list_all P new)
     \<and> steps drv P (keyspaces w) (keyspaces w')"

definition type_stmts :: "(stmt \<Rightarrow> bool) \<Rightarrow> bool" where
  "type_stmts P \<longleftrightarrow> (\<forall>ks t. P (CreateType ks t)) \<and> (\<forall>ks n f. P (AlterTypeAdd ks n f))"

definition table_stmts :: "table_model \<Rightarrow> (stmt \<Rightarrow> bool) \<Rightarrow> bool" where
  "table_stmts model P \<longleftrightarrow>
     P (CreateTable model)
     \<and> (\<forall>item \<in> set (columns model). \<not> primary_key (snd item) \<and> \<not> partition_key (snd item) \<longrightarrow>
           P (AlterTableAdd (keyspace model) (raw_column_family_name model) (snd item)))
     \<and> (\<forall>upd. upd \<noteq> [] \<longrightarrow> P (AlterTableWith (keyspace model) (raw_column_family_name model) upd))
     \<and> (\<forall>col \<in> snd ` set (columns model). index col \<longrightarrow>
           P (CreateIndex (index_name (raw_column_family_name model) col) (keyspace model)
                (raw_column_family_name model) (db_field_name col)))"

fun additive :: "stmt \<Rightarrow> bool" where
  "additive (DropKeyspace name) = False"
| "additive (DropTable ks raw) = False"
| "additive q = True"

fun adds_no_key_column :: "stmt \<Rightarrow> bool" where
  "adds_no_key_column (AlterTableAdd ks raw col) = (\<not> primary_key col \<and> \<not> partition_key col)"
| "adds_no_key_column q = True"

text \<open>
  One metadata grows into another when every keyspace, table, column, index, user type
  and field of the first is in the second, and the primary keys are the same.
\<close>

definition table_grows :: "table_meta \<Rightarrow> table_meta \<Rightarrow> bool" where
  "table_grows tm tm' \<longleftrightarrow>
     set (tm_columns tm) \<subseteq> set (tm_columns tm')
     \<and> set (tm_indexes tm) \<subseteq> set (tm_indexes tm')
     \<and> tm_primary_key tm' = tm_primary_key tm"

definition type_grows :: "user_type_meta \<Rightarrow> user_type_meta \<Rightarrow> bool" where
  "type_grows ut ut' \<longleftrightarrow> set (ut_field_names ut) \<subseteq> set (ut_field_names ut')"

definition keyspace_grows :: "keyspace_meta \<Rightarrow> keyspace_meta \<Rightarrow> bool" where
  "keyspace_grows km km' \<longleftrightarrow>
     (\<forall>raw tm. tables km raw = Some tm \<longrightarrow> (\<exists>tm'. tables km' raw = Some tm' \<and> table_grows tm tm'))
     \<and> (\<forall>n ut. user_types km n = Some ut \<longrightarrow> (\<exists>ut'. user_types km' n = Some ut' \<and> type_grows ut ut'))"

definition grows :: "metadata \<Rightarrow> metadata \<Rightarrow> bool" where
  "grows md md' \<longleftrightarrow>
     (\<forall>ks km. md ks = Some km \<longrightarrow> (\<exists>km'. md' ks = Some km' \<and> keyspace_grows km km'))"

subsection \<open>Example inputs\<close>

definition ex_model :: "(string \<times> column) list \<Rightarrow> string list \<Rightarrow> table_model" where
  "ex_model cols opts =
     \<lparr>is_model = True, is_abstract = False, keyspace = ''ks'', raw_column_family_name = ''t'',
      columns = cols, option_strings = opts\<rparr>"

definition ex_table :: "string list \<Rightarrow> string list \<Rightarrow> table_meta" where
  "ex_table cols opts =
     \<lparr>tm_columns = ''id'' # cols, tm_primary_key = [''id''], tm_indexes = [],
      tm_option_strings = opts\<rparr>"

definition ex_world :: "(string \<rightharpoonup> table_meta) \<Rightarrow> (string \<rightharpoonup> user_type_meta) \<Rightarrow> world" where
  "ex_world tabs types =
     \<lparr>keyspaces = [''ks'' \<mapsto> \<lparr>tables = tabs, user_types = types\<rparr>],
      executed = [], registered = [], logged = [], env_flag = True\<rparr>"

definition ex_id :: "string \<times> column" where
  "ex_id = (''id'', Column ''id'' True True False ''id int'' Plain)"

definition ex_field :: "string \<Rightarrow> string \<times> column" where
  "ex_field name = (name, Column name False False False (name @ '' int'') Plain)"

section \<open>The option diff\<close>

lemma nested_differs_iff:
  "nested_differs items d \<longleftrightarrow> (\<exists>k v. (k, v) \<in> set items \<and> map_of d k \<noteq> Some v)"
proof (induction items)
  case Nil
  show ?case by simp
next
  case (Cons kv items)
  obtain k v where kv: "kv = (k, v)" by (cases kv)
  show ?case
  proof (cases "map_of d k = Some v")
    case True
    then show ?thesis using Cons kv by auto
  next
    case False
    then have "nested_differs (kv # items) d" using kv by (auto split: option.splits)
    moreover have "\<exists>k' v'. (k', v') \<in> set (kv # items) \<and> map_of d k' \<noteq> Some v'"
      using False kv by auto
    ultimately show ?thesis by blast
  qed
qed

lemma diff_options_Cons:
  assumes "diff_options ((n, v) # rest) live acc = Return upd"
  shows "\<exists>ev. map_of live n = Some ev \<and> \<not> (\<exists>s d. v = Str s \<and> ev = Dict d) \<and>
           diff_options rest live (if entry_differs v ev then AList.update n v acc else acc) = Return upd"
proof (cases "map_of live n")
  case None
  with assms show ?thesis by simp
next
  case (Some ev)
  show ?thesis
  proof (cases ev)
    case (Str s)
    with assms Some show ?thesis by simp
  next
    case (Dict d)
    with assms Some show ?thesis by (cases v) auto
  qed
qed

lemma set_update_subset: "set (AList.update k v al) \<subseteq> insert (k, v) (set al)"
  by (induction al) auto

lemma diff_options_subset:
  "diff_options desired live acc = Return upd \<Longrightarrow> set upd \<subseteq> set acc \<union> set desired"
proof (induction desired arbitrary: acc)
  case Nil
  then show ?case by simp
next
  case (Cons nv rest)
  obtain n v where nv: "nv = (n, v)" by (cases nv)
  from diff_options_Cons[OF Cons.prems[unfolded nv]] obtain ev where
    rec: "diff_options rest live (if entry_differs v ev then AList.update n v acc else acc) = Return upd"
    by blast
  have "set upd \<subseteq> set (if entry_differs v ev then AList.update n v acc else acc) \<union> set rest"
    by (rule Cons.IH[OF rec])
  moreover have "set (if entry_differs v ev then AList.update n v acc else acc) \<subseteq> insert (n, v) (set acc)"
    using set_update_subset[of n v acc] by auto
  ultimately show ?case using nv by auto
qed

lemma diff_options_names:
  "diff_options desired live acc = Return upd \<Longrightarrow>
   fst ` set upd = fst ` set acc \<union> fst ` set (filter (in_diff live) desired)"
proof (induction desired arbitrary: acc)
  case Nil
  then show ?case by simp
next
  case (Cons nv rest)
  obtain n' v' where nv: "nv = (n', v')" by (cases nv)
  from diff_options_Cons[OF Cons.prems[unfolded nv]] obtain ev' where
    ev: "map_of live n' = Some ev'" and
    rec: "diff_options rest live (if entry_differs v' ev' then AList.update n' v' acc else acc) = Return upd"
    by blast
  let ?acc = "if entry_differs v' ev' then AList.update n' v' acc else acc"
  have ih: "fst ` set upd = fst ` set ?acc \<union> fst ` set (filter (in_diff live) rest)"
    by (rule Cons.IH[OF rec])
  have hd: "in_diff live nv = entry_differs v' ev'"
    by (simp add: in_diff_def nv ev)
  show ?case
  proof (cases "entry_differs v' ev'")
    case True
    then show ?thesis using ih hd by (simp add: dom_update nv) 
  next
    case False
    then show ?thesis using ih hd by simp
  qed
qed

lemma diff_options_defined:
  "diff_options desired live acc = Return upd \<Longrightarrow> (n, v) \<in> set desired \<Longrightarrow>
   \<exists>ev. map_of live n = Some ev \<and> \<not> (\<exists>s d. v = Str s \<and> ev = Dict d)"
proof (induction desired arbitrary: acc)
  case Nil
  then show ?case by simp
next
  case (Cons nv rest)
  obtain n' v' where nv: "nv = (n', v')" by (cases nv)
  from diff_options_Cons[OF Cons.prems(1)[unfolded nv]] obtain ev where
    ev: "map_of live n' = Some ev" "\<not> (\<exists>s d. v' = Str s \<and> ev = Dict d)" and
    rec: "diff_options rest live (if entry_differs v' ev then AList.update n' v' acc else acc) = Return upd"
    by blast
  show ?case
  proof (cases "(n, v) = (n', v')")
    case True
    then show ?thesis using ev by auto
  next
    case False
    then have "(n, v) \<in> set rest" using Cons.prems(2) nv by auto
    then show ?thesis using Cons.IH[OF rec] by blast
  qed
qed

text \<open>
  C4. When the diff is computed, a desired option whose live value is a scalar is in the
  diff iff the desired value differs from it; a desired option whose live value is a
  nested map is a nested map itself, and is in the diff iff one of its own items is
  missing from the live map or has another value there. Keys that only the live map has
  play no part. An option in the diff carries its desired value.
\<close>

theorem diff_options_iff:
  assumes "distinct (map fst desired)"
    and "diff_options desired live [] = Return upd"
    and "(name, value) \<in> set desired"
  shows "(\<forall>s. map_of live name = Some (Str s) \<longrightarrow> (name \<in> fst ` set upd \<longleftrightarrow> value \<noteq> Str s))
       \<and> (\<forall>d. map_of live name = Some (Dict d) \<longrightarrow>
            (\<exists>items. value = Dict items \<and>
               (name \<in> fst ` set upd \<longleftrightarrow> (\<exists>k v. (k, v) \<in> set items \<and> map_of d k \<noteq> Some v))))
       \<and> (name \<in> fst ` set upd \<longrightarrow> (name, value) \<in> set upd)"
proof -
  have uniq: "\<And>v. (name, v) \<in> set desired \<Longrightarrow> v = value"
    using eq_key_imp_eq_value[OF assms(1) _ assms(3)] by blast
  have "name \<in> fst ` set upd \<longleftrightarrow> (\<exists>v. (name, v) \<in> set desired \<and> in_diff live (name, v))"
    unfolding diff_options_names[OF assms(2)] by force
  then have "name \<in> fst ` set upd \<longleftrightarrow> in_diff live (name, value)"
    using uniq assms(3) by blast
  then have names: "name \<in> fst ` set upd \<longleftrightarrow> (\<exists>ev. map_of live name = Some ev \<and> entry_differs value ev)"
    by (simp add: in_diff_def split: option.splits)
  note defd = diff_options_defined[OF assms(2) assms(3)]
  have a: "\<forall>s. map_of live name = Some (Str s) \<longrightarrow> (name \<in> fst ` set upd \<longleftrightarrow> value \<noteq> Str s)"
    using names by auto
  have b: "\<forall>d. map_of live name = Some (Dict d) \<longrightarrow>
            (\<exists>items. value = Dict items \<and>
               (name \<in> fst ` set upd \<longleftrightarrow> (\<exists>k v. (k, v) \<in> set items \<and> map_of d k \<noteq> Some v)))"
  proof (intro allI impI)
    fix d assume d: "map_of live name = Some (Dict d)"
    then obtain items where items: "value = Dict items" using defd by (cases "value") auto
    have "name \<in> fst ` set upd \<longleftrightarrow> nested_differs items d"
      using names d items by auto
    then show "\<exists>items. value = Dict items \<and>
               (name \<in> fst ` set upd \<longleftrightarrow> (\<exists>k v. (k, v) \<in> set items \<and> map_of d k \<noteq> Some v))"
      using items nested_differs_iff by simp
  qed
  have c: "name \<in> fst ` set upd \<longrightarrow> (name, value) \<in> set upd"
  proof
    assume "name \<in> fst ` set upd"
    then obtain v where v: "(name, v) \<in> set upd" by auto
    then have "(name, v) \<in> set desired" using diff_options_subset[OF assms(2)] by auto
    then show "(name, value) \<in> set upd" using uniq v by auto
  qed
  show ?thesis using a b c by blast
qed


theorem diff_options_iff_witness:
  "distinct (map fst [(''gc'', Str ''1''), (''compaction'', Dict [(''class'', JString ''L'')])])
   \<and> diff_options [(''gc'', Str ''1''), (''compaction'', Dict [(''class'', JString ''L'')])]
         [(''gc'', Str ''2''),
          (''compaction'', Dict [(''class'', JString ''L''), (''min'', JString ''4'')])] []
       = Return [(''gc'', Str ''1'')]
   \<and> ''compaction'' \<notin> fst ` set [(''gc'', Str ''1'')]
   \<and> ''gc'' \<in> fst ` set [(''gc'', Str ''1'')]"
proof -
  let ?D = "[(''gc'', Str ''1''), (''compaction'', Dict [(''class'', JString ''L'')])]"
  let ?L = "[(''gc'', Str ''2''),
          (''compaction'', Dict [(''class'', JString ''L''), (''min'', JString ''4'')])]"
  have h1: "distinct (map fst ?D)" by simp
  have h2: "diff_options ?D ?L [] = Return [(''gc'', Str ''1'')]" by simp
  have h3: "(''compaction'', Dict [(''class'', JString ''L'')]) \<in> set ?D" by simp
  have h4: "(''gc'', Str ''1'') \<in> set ?D" by simp
  from diff_options_iff[OF h1 h2 h3] have "''compaction'' \<notin> fst ` set [(''gc'', Str ''1'')]"
    by simp
  moreover from diff_options_iff[OF h1 h2 h4] have "''gc'' \<in> fst ` set [(''gc'', Str ''1'')]"
    by simp
  ultimately show ?thesis using h1 h2 by blast
qed

section \<open>The statements a synchronization executes\<close>

lemma steps_trans: "steps drv P md1 md2 \<Longrightarrow> steps drv P md md1 \<Longrightarrow> steps drv P md md2"
  by (induction rule: steps.induct) (auto intro: steps.intros)

lemma post_same: "keyspaces w' = keyspaces w \<Longrightarrow> executed w' = executed w \<Longrightarrow> post drv P w w'"
  by (simp add: post_def steps_refl)

lemma post_trans: "post drv P w w1 \<Longrightarrow> post drv P w1 w2 \<Longrightarrow> post drv P w w2"
  unfolding post_def using steps_trans by fastforce

lemma post_log_info: "post drv P w (log_info l w)"
  by (simp add: post_same log_info_def)

lemma post_register: "post drv P w (register_for_keyspace t ks w)"
  by (simp add: post_same register_for_keyspace_def)

lemma post_allow: "post drv P w (snd (allow_schema_modification w))"
  by (simp add: allow_schema_modification_def post_log_info post_same)

lemma post_do_execute:
  assumes "P q" and "do_execute drv q w = (r, w')"
  shows "post drv P w w'"
proof (cases "execute drv q (keyspaces w)")
  case (Return md)
  then have w': "w' = w\<lparr>keyspaces := md, executed := executed w @ [q]\<rparr>"
    using assms(2) by (simp add: do_execute_def)
  have "steps drv P (keyspaces w) md"
    by (rule steps_execute[where q = q and ?md1.0 = "keyspaces w"])
       (simp_all add: steps_refl assms(1) Return)
  then show ?thesis using assms(1) w' by (simp add: post_def)
next
  case (Raise e)
  then have w': "w' = w\<lparr>executed := executed w @ [q]\<rparr>"
    using assms(2) by (simp add: do_execute_def)
  show ?thesis using assms(1) w' by (simp add: post_def steps_refl)
qed

lemma post_for_each:
  assumes "\<And>x w r w'. x \<in> set xs \<Longrightarrow> body x w = (r, w') \<Longrightarrow> post drv P w w'"
    and "for_each body xs w = (r, w')"
  shows "post drv P w w'"
  using assms
proof (induction xs arbitrary: w)
  case Nil
  then show ?case by (simp add: post_same)
next
  case (Cons x xs)
  obtain r1 w1 where b: "body x w = (r1, w1)" by (cases "body x w")
  have p1: "post drv P w w1" using Cons.prems(1)[OF _ b] by simp
  show ?case
  proof (cases r1)
    case (Return u)
    then have fe: "for_each body xs w1 = (r, w')" using Cons.prems(2) b by simp
    have "post drv P w1 w'"
    proof (rule Cons.IH[OF _ fe])
      fix y w r w' assume "y \<in> set xs" "body y w = (r, w')"
      then show "post drv P w w'" using Cons.prems(1)[of y w r w'] by simp
    qed
    then show ?thesis using p1 post_trans by blast
  next
    case (Raise e)
    then have "w' = w1" using Cons.prems(2) b by simp
    then show ?thesis using p1 by simp
  qed
qed

lemma post_sync_type_body:
  assumes P: "P (CreateType ks_name t)" "\<And>f. f \<in> snd ` set (type_fields t) \<Longrightarrow> P (AlterTypeAdd ks_name (type_name t) f)"
    and "sync_type_body drv ks_name t w = (r, w')"
  shows "post drv P w w'"
proof (cases "keyspaces w ks_name")
  case None
  then show ?thesis using assms(3) by (simp add: sync_type_body_def post_same)
next
  case (Some km)
  show ?thesis
  proof (cases "user_types km (type_name t)")
    case None
    obtain r1 w1 where e: "do_execute drv (CreateType ks_name t) w = (r1, w1)"
      by (cases "do_execute drv (CreateType ks_name t) w")
    have p1: "post drv P w w1" using post_do_execute[where P = P, OF P(1) e] .
    show ?thesis
    proof (cases r1)
      case (Return u)
      let ?w2 = "w1\<lparr>keyspaces := refresh_user_type_metadata drv ks_name (type_name t) (keyspaces w1)\<rparr>"
      have w': "w' = register_for_keyspace t ks_name ?w2"
        using assms(3) Some None e Return by (simp add: sync_type_body_def)
      have "steps drv P (keyspaces w) (keyspaces ?w2)"
        using p1 by (auto simp: post_def intro: steps_refresh)
      then have "post drv P w ?w2" using p1 by (simp add: post_def)
      then show ?thesis using w' post_register post_trans by blast
    next
      case (Raise e')
      then have "w' = w1" using assms(3) Some None e by (simp add: sync_type_body_def)
      then show ?thesis using p1 by simp
    qed
  next
    case (Some ut)
    note ut = this
    obtain r1 w1 where e: "for_each (alter_type_field drv ks_name (type_name t) (ut_field_names ut))
                          (map snd (type_fields t)) w = (r1, w1)"
      by (cases "for_each (alter_type_field drv ks_name (type_name t) (ut_field_names ut))
                          (map snd (type_fields t)) w")
    have p1: "post drv P w w1"
    proof (rule post_for_each[OF _ e])
      fix x w r w'
      assume "x \<in> set (map snd (type_fields t))"
        and "alter_type_field drv ks_name (type_name t) (ut_field_names ut) x w = (r, w')"
      then show "post drv P w w'"
        using P(2)[of x] post_do_execute[where P = P and q = "AlterTypeAdd ks_name (type_name t) x" and drv = drv and w = w and r = r and w' = w']
        by (auto simp: alter_type_field_def post_same split: if_splits)
    qed
    show ?thesis
    proof (cases r1)
      case (Return u)
      have "w' = log_type_fields ks_name t (ut_field_names ut) (register_for_keyspace t ks_name w1)"
        using assms(3) \<open>keyspaces w ks_name = Some km\<close> ut e Return
        by (simp add: sync_type_body_def)
      then have "post drv P w1 w'"
        by (simp add: post_same log_type_fields_def Let_def log_info_def register_for_keyspace_def)
      then show ?thesis using p1 post_trans by blast
    next
      case (Raise e')
      then have "w' = w1"
        using assms(3) \<open>keyspaces w ks_name = Some km\<close> ut e by (simp add: sync_type_body_def)
      then show ?thesis using p1 by simp
    qed
  qed
qed

lemma post_sync_type':
  assumes "type_stmts P"
  shows "(\<forall>r w'. sync_type' drv ks_name t omit w = (r, w') \<longrightarrow> post drv P w w')"
    and "(\<forall>r w'. sync_fields drv ks_name cs s w = (r, w') \<longrightarrow> post drv P w w')"
    and "(\<forall>r w'. sync_udts drv ks_name us s' w2 = (r, w') \<longrightarrow> post drv P w2 w')"
proof (induction drv ks_name t omit w and drv ks_name cs s w and drv ks_name us s' w2
        rule: sync_type'_sync_fields_sync_udts.induct)
  case (1 drv ks_name type_model omit_subtypes w)
  show ?case
  proof (intro allI impI)
    fix r w' assume a: "sync_type' drv ks_name type_model omit_subtypes w = (r, w')"
    obtain r1 w1 where f: "sync_fields drv ks_name (map snd (type_fields type_model)) omit_subtypes w = (r1, w1)"
      by (cases "sync_fields drv ks_name (map snd (type_fields type_model)) omit_subtypes w")
    have p1: "post drv P w w1" using 1 f by blast
    show "post drv P w w'"
    proof (cases r1)
      case (Return s1)
      obtain r2 w2 where b: "sync_type_body drv ks_name type_model w1 = (r2, w2)"
        by (cases "sync_type_body drv ks_name type_model w1")
      have "post drv P w1 w2"
        using post_sync_type_body[where P = P, OF _ _ b] assms by (simp add: type_stmts_def)
      moreover have "w' = w2" using a f Return b by (cases r2) auto
      ultimately show ?thesis using p1 post_trans by blast
    next
      case (Raise e)
      then have "w' = w1" using a f by simp
      then show ?thesis using p1 by simp
    qed
  qed
next
  case (2 drv ks_name syncd_sub_types w)
  show ?case by (simp add: post_same)
next
  case (3 drv ks_name field rest syncd_sub_types w)
  show ?case
  proof (intro allI impI)
    fix r w' assume a: "sync_fields drv ks_name (field # rest) syncd_sub_types w = (r, w')"
    obtain r1 w1 where f: "sync_udts drv ks_name (filter (\<lambda>u. u \<notin> syncd_sub_types) (resolve_udts field)) syncd_sub_types w = (r1, w1)"
      by (cases "sync_udts drv ks_name (filter (\<lambda>u. u \<notin> syncd_sub_types) (resolve_udts field)) syncd_sub_types w")
    have p1: "post drv P w w1" using 3(1) f by blast
    show "post drv P w w'"
    proof (cases r1)
      case (Return s1)
      then have "sync_fields drv ks_name rest s1 w1 = (r, w')" using a f by simp
      then have "post drv P w1 w'" using 3(2)[OF f[symmetric] Return] by blast
      then show ?thesis using p1 post_trans by blast
    next
      case (Raise e)
      then have "w' = w1" using a f by simp
      then show ?thesis using p1 by simp
    qed
  qed
next
  case (4 drv ks_name syncd_sub_types w)
  show ?case by (simp add: post_same)
next
  case (5 drv ks_name udt rest syncd_sub_types w)
  show ?case
  proof (intro allI impI)
    fix r w' assume a: "sync_udts drv ks_name (udt # rest) syncd_sub_types w = (r, w')"
    obtain r1 w1 where f: "sync_type' drv ks_name udt syncd_sub_types w = (r1, w1)"
      by (cases "sync_type' drv ks_name udt syncd_sub_types w")
    have p1: "post drv P w w1" using 5(1) f by blast
    show "post drv P w w'"
    proof (cases r1)
      case (Return s1)
      then have "sync_udts drv ks_name rest (insert udt s1) w1 = (r, w')" using a f by simp
      then have "post drv P w1 w'" using 5(2)[OF f[symmetric] Return] by blast
      then show ?thesis using p1 post_trans by blast
    next
      case (Raise e)
      then have "w' = w1" using a f by simp
      then show ?thesis using p1 by simp
    qed
  qed
qed


lemma post_sync_table_udts:
  assumes "type_stmts P" and "sync_table_udts drv ks_name us s w = (r, w')"
  shows "post drv P w w'"
  using assms(2)
proof (induction us arbitrary: s w)
  case Nil
  then show ?case by (simp add: post_same)
next
  case (Cons u us)
  obtain r1 w1 where f: "sync_type' drv ks_name u s w = (r1, w1)"
    by (cases "sync_type' drv ks_name u s w")
  have p1: "post drv P w w1" using post_sync_type'(1)[OF assms(1)] f by blast
  show ?case
  proof (cases r1)
    case (Return s1)
    then have "sync_table_udts drv ks_name us s1 w1 = (r, w')" using Cons.prems f by simp
    then show ?thesis using Cons.IH p1 post_trans by blast
  next
    case (Raise e)
    then have "w' = w1" using Cons.prems f by simp
    then show ?thesis using p1 by simp
  qed
qed

lemma post_sync_table_types:
  assumes "type_stmts P" and "sync_table_types drv ks_name cs s w = (r, w')"
  shows "post drv P w w'"
  using assms(2)
proof (induction cs arbitrary: s w)
  case Nil
  then show ?case by (simp add: post_same)
next
  case (Cons c cs)
  obtain r1 w1 where f: "sync_table_udts drv ks_name (filter (\<lambda>u. u \<notin> s) (resolve_udts c)) s w = (r1, w1)"
    by (cases "sync_table_udts drv ks_name (filter (\<lambda>u. u \<notin> s) (resolve_udts c)) s w")
  have p1: "post drv P w w1" using post_sync_table_udts[OF assms(1) f] .
  show ?case
  proof (cases r1)
    case (Return s1)
    then have "sync_table_types drv ks_name cs s1 w1 = (r, w')" using Cons.prems f by simp
    then show ?thesis using Cons.IH p1 post_trans by blast
  next
    case (Raise e)
    then have "w' = w1" using Cons.prems f by simp
    then show ?thesis using p1 by simp
  qed
qed

lemma post_create_table:
  assumes "P (CreateTable model)" and "create_table drv model w = (r, w')"
  shows "post drv P w w'"
proof -
  obtain r1 w1 where e: "do_execute drv (CreateTable model) w = (r1, w1)"
    by (cases "do_execute drv (CreateTable model) w")
  have "w' = w1" using assms(2) e by (cases r1) (auto simp: create_table_def split: if_splits)
  then show ?thesis using post_do_execute[where P = P, OF assms(1) e] by simp
qed

lemma post_add_column:
  assumes "\<not> primary_key (snd item) \<and> \<not> partition_key (snd item) \<Longrightarrow>
           P (AlterTableAdd (keyspace model) (raw_column_family_name model) (snd item))"
    and "add_column drv model fnames item w = (r, w')"
  shows "post drv P w w'"
proof -
  obtain name col where item: "item = (name, col)" by (cases item)
  show ?thesis
  proof (cases "primary_key col \<or> partition_key col \<or> db_field_name col \<in> set fnames")
    case True
    then have "w' = w" using assms(2) item by (auto simp: add_column_def split: if_splits)
    then show ?thesis by (simp add: post_same)
  next
    case False
    then have "do_execute drv (AlterTableAdd (keyspace model) (raw_column_family_name model) col) w = (r, w')"
      using assms(2) item by (auto simp: add_column_def)
    moreover have "P (AlterTableAdd (keyspace model) (raw_column_family_name model) col)"
      using assms(1) False item by simp
    ultimately show ?thesis using post_do_execute[where P = P] by blast
  qed
qed

lemma post_update_options:
  assumes "\<And>upd. upd \<noteq> [] \<Longrightarrow> P (AlterTableWith (keyspace model) (raw_column_family_name model) upd)"
    and "update_options drv model w = (r, w')"
  shows "post drv P w w'"
proof -
  have "w' = w \<or> (\<exists>upd r1. upd \<noteq> [] \<and>
           do_execute drv (AlterTableWith (keyspace model) (raw_column_family_name model) upd) w = (r1, w'))"
    using assms(2)
    by (auto simp: update_options_def split: result.splits if_splits prod.splits)
  then show ?thesis
  proof
    assume "w' = w"
    then show ?thesis by (simp add: post_same)
  next
    assume "\<exists>upd r1. upd \<noteq> [] \<and>
           do_execute drv (AlterTableWith (keyspace model) (raw_column_family_name model) upd) w = (r1, w')"
    then obtain upd r1 where u: "upd \<noteq> []"
      and e: "do_execute drv (AlterTableWith (keyspace model) (raw_column_family_name model) upd) w = (r1, w')"
      by blast
    show ?thesis by (rule post_do_execute[where P = P, OF assms(1)[OF u] e])
  qed
qed

lemma post_alter_table:
  assumes "\<And>item. item \<in> set (columns model) \<Longrightarrow> \<not> primary_key (snd item) \<and> \<not> partition_key (snd item) \<Longrightarrow>
           P (AlterTableAdd (keyspace model) (raw_column_family_name model) (snd item))"
    and "\<And>upd. upd \<noteq> [] \<Longrightarrow> P (AlterTableWith (keyspace model) (raw_column_family_name model) upd)"
    and "alter_table drv model tm w = (r, w')"
  shows "post drv P w w'"
proof -
  obtain r1 w1 where e: "for_each (add_column drv model (get_non_pk_field_names tm)) (columns model) w = (r1, w1)"
    by (cases "for_each (add_column drv model (get_non_pk_field_names tm)) (columns model) w")
  have p1: "post drv P w w1"
  proof (rule post_for_each[OF _ e])
    fix x w r w'
    assume "x \<in> set (columns model)" "add_column drv model (get_non_pk_field_names tm) x w = (r, w')"
    then show "post drv P w w'" using post_add_column[where P = P] assms(1) by blast
  qed
  show ?thesis
  proof (cases r1)
    case (Return u)
    define w2 where "w2 = log_table_fields model (get_non_pk_field_names tm) w1"
    have w2: "post drv P w1 w2"
      by (simp add: w2_def log_table_fields_def Let_def post_same post_log_info)
    obtain r3 w3 where u: "update_options drv model w2 = (r3, w3)"
      by (cases "update_options drv model w2")
    have "w' = w3" using assms(3) e Return u
      by (cases r3) (auto simp: alter_table_def w2_def)
    moreover have "post drv P w2 w3" using post_update_options[where P = P, OF assms(2) u] by simp
    ultimately show ?thesis using p1 w2 post_trans by blast
  next
    case (Raise e')
    then have "w' = w1" using assms(3) e by (simp add: alter_table_def Let_def)
    then show ?thesis using p1 by simp
  qed
qed

lemma post_sync_indexes:
  assumes "\<And>col. col \<in> snd ` set (columns model) \<Longrightarrow> index col \<Longrightarrow>
           P (CreateIndex (index_name (raw_column_family_name model) col) (keyspace model)
                (raw_column_family_name model) (db_field_name col))"
    and "sync_indexes drv model w = (r, w')"
  shows "post drv P w w'"
proof (cases "get_table_metadata model w")
  case (Raise e)
  then show ?thesis using assms(2) by (simp add: sync_indexes_def post_same)
next
  case (Return tm)
  then have e: "for_each (create_index drv model tm) (filter index (map snd (columns model))) w = (r, w')"
    using assms(2) by (simp add: sync_indexes_def)
  show ?thesis
  proof (rule post_for_each[OF _ e])
    fix x w r w'
    assume "x \<in> set (filter index (map snd (columns model)))" "create_index drv model tm x w = (r, w')"
    then show "post drv P w w'"
      using assms(1)[of x] post_do_execute[where P = P and drv = drv and w = w and r = r and w' = w']
      by (auto simp: create_index_def post_same split: if_splits)
  qed
qed

lemma post_sync_table:
  assumes "type_stmts P" and "table_stmts model P" and "sync_table drv model w = (r, w')"
  shows "post drv P w w'"
proof -
  have ts1: "P (CreateTable model)"
    and ts2: "\<And>item. item \<in> set (columns model) \<Longrightarrow> \<not> primary_key (snd item) \<and> \<not> partition_key (snd item) \<Longrightarrow>
           P (AlterTableAdd (keyspace model) (raw_column_family_name model) (snd item))"
    and ts3: "\<And>upd. upd \<noteq> [] \<Longrightarrow> P (AlterTableWith (keyspace model) (raw_column_family_name model) upd)"
    and ts4: "\<And>col. col \<in> snd ` set (columns model) \<Longrightarrow> index col \<Longrightarrow>
           P (CreateIndex (index_name (raw_column_family_name model) col) (keyspace model)
                (raw_column_family_name model) (db_field_name col))"
    using assms(2) unfolding table_stmts_def by blast+
  obtain w0 where a: "allow_schema_modification w = (True, w0)"
    by (simp add: allow_schema_modification_def)
  have p0: "post drv P w w0" using post_allow[of drv P w] a by simp
  note st = assms(3)[unfolded sync_table_def a]
  show ?thesis
  proof (cases "\<not> is_model model \<or> is_abstract model \<or> keyspaces w0 (keyspace model) = None")
    case True
    then have "w' = w0" using st by (auto split: if_splits)
    then show ?thesis using p0 by simp
  next
    case False
    then obtain km where km: "keyspaces w0 (keyspace model) = Some km" by auto
    obtain r1 w1 where t: "sync_table_types drv (keyspace model) (map snd (columns model)) {} w0 = (r1, w1)"
      by (cases "sync_table_types drv (keyspace model) (map snd (columns model)) {} w0")
    have p1: "post drv P w0 w1" using post_sync_table_types[OF assms(1) t] .
    show ?thesis
    proof (cases r1)
      case (Raise e)
      then have "w' = w1" using st False km t by simp
      then show ?thesis using p0 p1 post_trans by blast
    next
      case (Return s1)
      obtain r2 w2 where c: "(case tables km (raw_column_family_name model) of
                                  None \<Rightarrow> create_table drv model w1
                                | Some tm \<Rightarrow> alter_table drv model tm w1) = (r2, w2)"
        by (cases "(case tables km (raw_column_family_name model) of
                                  None \<Rightarrow> create_table drv model w1
                                | Some tm \<Rightarrow> alter_table drv model tm w1)")
      have p2: "post drv P w1 w2"
      proof (cases "tables km (raw_column_family_name model)")
        case None
        then have "create_table drv model w1 = (r2, w2)" using c by simp
        then show ?thesis by (rule post_create_table[where P = P, OF ts1])
      next
        case (Some tm)
        then have at: "alter_table drv model tm w1 = (r2, w2)" using c by simp
        show ?thesis
        proof (rule post_alter_table[where P = P, OF _ _ at])
          fix item assume "item \<in> set (columns model)" "\<not> primary_key (snd item) \<and> \<not> partition_key (snd item)"
          then show "P (AlterTableAdd (keyspace model) (raw_column_family_name model) (snd item))"
            by (rule ts2)
        next
          fix upd :: options assume "upd \<noteq> []"
          then show "P (AlterTableWith (keyspace model) (raw_column_family_name model) upd)"
            by (rule ts3)
        qed
      qed
      show ?thesis
      proof (cases r2)
        case (Raise e)
        then have "w' = w2" using st False km t Return c by simp
        then show ?thesis using p0 p1 p2 post_trans by blast
      next
        case (Return u)
        then have "sync_indexes drv model w2 = (r, w')"
          using st False km t \<open>r1 = Return s1\<close> c by simp
        then have si: "sync_indexes drv model w2 = (r, w')" .
        have "post drv P w2 w'"
        proof (rule post_sync_indexes[where P = P, OF _ si])
          fix col assume "col \<in> snd ` set (columns model)" "index col"
          then show "P (CreateIndex (index_name (raw_column_family_name model) col) (keyspace model)
                (raw_column_family_name model) (db_field_name col))"
            by (rule ts4)
        qed
        then show ?thesis using p0 p1 p2 post_trans by blast
      qed
    qed
  qed
qed

section \<open>Additive statements only\<close>

text \<open>
  C5. Whatever the driver does and however \<^verbatim>\<open>sync_table\<close> ends, no
  \<^verbatim>\<open>ALTER TABLE ... ADD\<close> it hands to \<^verbatim>\<open>execute\<close> is for a column declared with
  \<^verbatim>\<open>primary_key\<close> or \<^verbatim>\<open>partition_key\<close>, also when the live table lacks the column.
\<close>

theorem sync_table_never_adds_key_column:
  assumes "sync_table drv model w = (r, w')"
  shows "\<exists>new. executed w' = executed w @ new \<and>
           (\<forall>ks raw col. AlterTableAdd ks raw col \<in> set new \<longrightarrow> \<not> primary_key col \<and> \<not> partition_key col)"
proof -
  have "type_stmts adds_no_key_column" by (simp add: type_stmts_def)
  moreover have "table_stmts model adds_no_key_column" by (simp add: table_stmts_def)
  ultimately have "post drv adds_no_key_column w w'" using assms by (rule post_sync_table)
  then obtain new where n: "executed w' = executed w @ new" "list_all adds_no_key_column new"
    by (auto simp: post_def)
  have "\<not> primary_key col \<and> \<not> partition_key col" if "AlterTableAdd ks raw col \<in> set new" for ks raw col
    using n(2) that by (auto simp: list_all_iff)
  then show ?thesis using n(1) by blast
qed

theorem sync_table_never_adds_key_column_witness:
  "executed (snd (sync_table (ideal_driver json_loads_flat)
      (ex_model [ex_id, (''p2'', Column ''p2'' True True False ''p2 int'' Plain), ex_field ''v''] [])
      (ex_world [''t'' \<mapsto> ex_table [] []] Map.empty)))
     = [AlterTableAdd ''ks'' ''t'' (snd (ex_field ''v''))]
   \<and> (\<exists>new. executed (snd (sync_table (ideal_driver json_loads_flat)
      (ex_model [ex_id, (''p2'', Column ''p2'' True True False ''p2 int'' Plain), ex_field ''v''] [])
      (ex_world [''t'' \<mapsto> ex_table [] []] Map.empty)))
        = executed (ex_world [''t'' \<mapsto> ex_table [] []] Map.empty) @ new
      \<and> (\<forall>ks raw col. AlterTableAdd ks raw col \<in> set new \<longrightarrow> \<not> primary_key col \<and> \<not> partition_key col))"
proof -
  let ?drv = "ideal_driver json_loads_flat"
  let ?m = "ex_model [ex_id, (''p2'', Column ''p2'' True True False ''p2 int'' Plain), ex_field ''v''] []"
  let ?w = "ex_world [''t'' \<mapsto> ex_table [] []] Map.empty"
  have h: "sync_table ?drv ?m ?w = (fst (sync_table ?drv ?m ?w), snd (sync_table ?drv ?m ?w))"
    by simp
  have e: "executed (snd (sync_table ?drv ?m ?w)) = [AlterTableAdd ''ks'' ''t'' (snd (ex_field ''v''))]"
    by code_simp
  from sync_table_never_adds_key_column[OF h] e show ?thesis by blast
qed

lemma table_grows_refl: "table_grows tm tm"
  by (simp add: table_grows_def)

lemma table_grows_trans: "table_grows a b \<Longrightarrow> table_grows b c \<Longrightarrow> table_grows a c"
  by (auto simp: table_grows_def)

lemma type_grows_refl: "type_grows ut ut"
  by (simp add: type_grows_def)

lemma type_grows_trans: "type_grows a b \<Longrightarrow> type_grows b c \<Longrightarrow> type_grows a c"
  by (auto simp: type_grows_def)

lemma keyspace_grows_refl: "keyspace_grows km km"
  by (simp add: keyspace_grows_def table_grows_refl type_grows_refl)

lemma keyspace_grows_trans:
  assumes "keyspace_grows a b" and "keyspace_grows b c"
  shows "keyspace_grows a c"
  unfolding keyspace_grows_def
proof (intro conjI allI impI)
  fix raw tm assume "tables a raw = Some tm"
  then obtain tm1 where "tables b raw = Some tm1" "table_grows tm tm1"
    using assms(1) unfolding keyspace_grows_def by blast
  moreover then obtain tm2 where "tables c raw = Some tm2" "table_grows tm1 tm2"
    using assms(2) unfolding keyspace_grows_def by blast
  ultimately show "\<exists>tm'. tables c raw = Some tm' \<and> table_grows tm tm'"
    using table_grows_trans by blast
next
  fix n ut assume "user_types a n = Some ut"
  then obtain ut1 where "user_types b n = Some ut1" "type_grows ut ut1"
    using assms(1) unfolding keyspace_grows_def by blast
  moreover then obtain ut2 where "user_types c n = Some ut2" "type_grows ut1 ut2"
    using assms(2) unfolding keyspace_grows_def by blast
  ultimately show "\<exists>ut'. user_types c n = Some ut' \<and> type_grows ut ut'"
    using type_grows_trans by blast
qed

lemma grows_refl: "grows md md"
  by (simp add: grows_def keyspace_grows_refl)

lemma grows_trans:
  assumes "grows a b" and "grows b c"
  shows "grows a c"
  unfolding grows_def
proof (intro allI impI)
  fix ks km assume "a ks = Some km"
  then obtain km1 where "b ks = Some km1" "keyspace_grows km km1"
    using assms(1) unfolding grows_def by blast
  moreover then obtain km2 where "c ks = Some km2" "keyspace_grows km1 km2"
    using assms(2) unfolding grows_def by blast
  ultimately show "\<exists>km'. c ks = Some km' \<and> keyspace_grows km km'"
    using keyspace_grows_trans by blast
qed

lemma grows_keyspace_update:
  assumes "md ks = Some km" and "keyspace_grows km km'"
  shows "grows md (md(ks \<mapsto> km'))"
  using assms by (auto simp: grows_def keyspace_grows_refl)

lemma with_keyspace_grows:
  assumes "with_keyspace md ks f = Return md'"
    and "\<And>km km'. md ks = Some km \<Longrightarrow> f km = Return km' \<Longrightarrow> keyspace_grows km km'"
  shows "grows md md'"
proof -
  from assms(1) obtain km km' where "md ks = Some km" "f km = Return km'" "md' = md(ks \<mapsto> km')"
    by (auto simp: with_keyspace_def invalid_def split: option.splits result.splits)
  then show ?thesis using assms(2) grows_keyspace_update by blast
qed

lemma with_table_grows:
  assumes "with_table md ks raw f = Return md'"
    and "\<And>tm tm'. f tm = Return tm' \<Longrightarrow> table_grows tm tm'"
  shows "grows md md'"
  using assms(1) unfolding with_table_def
proof (rule with_keyspace_grows)
  fix km km' :: keyspace_meta
  assume "(case tables km raw of None \<Rightarrow> Raise (DriverError ''InvalidRequest'' ''unknown table'')
         | Some tm \<Rightarrow> (case f tm of Return tm' \<Rightarrow> Return (km\<lparr>tables := (tables km)(raw \<mapsto> tm')\<rparr>)
                       | Raise e \<Rightarrow> Raise e)) = Return km'"
  then obtain tm tm' where "tables km raw = Some tm" "f tm = Return tm'"
    "km' = km\<lparr>tables := (tables km)(raw \<mapsto> tm')\<rparr>"
    by (auto split: option.splits result.splits)
  then show "keyspace_grows km km'"
    using assms(2)[of tm tm'] by (auto simp: keyspace_grows_def table_grows_refl type_grows_refl)
qed

lemma execute_ideal_grows:
  assumes "additive q" and "execute_ideal q md = Return md'"
  shows "grows md md'"
proof (cases q)
  case (CreateKeyspace name dw sc so)
  then show ?thesis using assms(2)
    by (auto simp: grows_def keyspace_grows_refl split: if_splits)
next
  case (DropKeyspace name)
  then show ?thesis using assms(1) by simp
next
  case (CreateTable model)
  show ?thesis
  proof (rule with_keyspace_grows)
    show "with_keyspace md (keyspace model) (\<lambda>km.
       if raw_column_family_name model \<in> dom (tables km)
       then Raise (DriverError ''AlreadyExists'' ''table exists'')
       else if \<not> distinct (map (\<lambda>(name, col). db_field_name col) (columns model))
       then Raise (DriverError ''InvalidRequest'' ''duplicate column'')
       else Return (km\<lparr>tables := (tables km)(raw_column_family_name model \<mapsto> created_table model)\<rparr>)) = Return md'"
      using assms(2) CreateTable by simp
  next
    fix km km' :: keyspace_meta
    assume "(if raw_column_family_name model \<in> dom (tables km)
       then Raise (DriverError ''AlreadyExists'' ''table exists'')
       else if \<not> distinct (map (\<lambda>(name, col). db_field_name col) (columns model))
       then Raise (DriverError ''InvalidRequest'' ''duplicate column'')
       else Return (km\<lparr>tables := (tables km)(raw_column_family_name model \<mapsto> created_table model)\<rparr>)) = Return km'"
    then show "keyspace_grows km km'"
      by (auto simp: keyspace_grows_def table_grows_refl type_grows_refl split: if_splits)
  qed
next
  case (AlterTableAdd ks raw col)
  show ?thesis
    by (rule with_table_grows[where ks = ks and raw = raw and f = "\<lambda>tm.
       if db_field_name col \<in> set (tm_columns tm)
       then Raise (DriverError ''InvalidRequest'' ''column exists'')
       else Return (tm\<lparr>tm_columns := tm_columns tm @ [db_field_name col]\<rparr>)"])
      (use assms(2) AlterTableAdd in \<open>auto simp: table_grows_def split: if_splits\<close>)
next
  case (AlterTableWith ks raw upd)
  show ?thesis
    by (rule with_table_grows[where ks = ks and raw = raw and f = "\<lambda>tm.
       Return (tm\<lparr>tm_option_strings := set_options upd (tm_option_strings tm)\<rparr>)"])
      (use assms(2) AlterTableWith in \<open>auto simp: table_grows_def\<close>)
next
  case (CreateIndex name ks raw field)
  show ?thesis
    by (rule with_table_grows[where ks = ks and raw = raw and f = "\<lambda>tm.
       if name \<in> set (tm_indexes tm) then Raise (DriverError ''InvalidRequest'' ''index exists'')
       else Return (tm\<lparr>tm_indexes := tm_indexes tm @ [name]\<rparr>)"])
      (use assms(2) CreateIndex in \<open>auto simp: table_grows_def split: if_splits\<close>)
next
  case (DropTable ks raw)
  then show ?thesis using assms(1) by simp
next
  case (CreateType ks t)
  show ?thesis
  proof (rule with_keyspace_grows)
    show "with_keyspace md ks (\<lambda>km.
       if type_name t \<in> dom (user_types km)
       then Raise (DriverError ''InvalidRequest'' ''type exists'')
       else if \<not> distinct (map (\<lambda>f. db_field_name (snd f)) (type_fields t))
       then Raise (DriverError ''InvalidRequest'' ''duplicate field'')
       else Return (km\<lparr>user_types := (user_types km)(type_name t \<mapsto>
              \<lparr>ut_field_names = map (\<lambda>f. db_field_name (snd f)) (type_fields t)\<rparr>)\<rparr>)) = Return md'"
      using assms(2) CreateType by simp
  next
    fix km km' :: keyspace_meta
    assume "(if type_name t \<in> dom (user_types km)
       then Raise (DriverError ''InvalidRequest'' ''type exists'')
       else if \<not> distinct (map (\<lambda>f. db_field_name (snd f)) (type_fields t))
       then Raise (DriverError ''InvalidRequest'' ''duplicate field'')
       else Return (km\<lparr>user_types := (user_types km)(type_name t \<mapsto>
              \<lparr>ut_field_names = map (\<lambda>f. db_field_name (snd f)) (type_fields t)\<rparr>)\<rparr>)) = Return km'"
    then show "keyspace_grows km km'"
      by (auto simp: keyspace_grows_def table_grows_refl type_grows_refl split: if_splits)
  qed
next
  case (AlterTypeAdd ks tname field)
  show ?thesis
  proof (rule with_keyspace_grows)
    show "with_keyspace md ks (\<lambda>km.
       case user_types km tname of
         None \<Rightarrow> Raise (DriverError ''InvalidRequest'' ''unknown type'')
       | Some ut \<Rightarrow>
           if db_field_name field \<in> set (ut_field_names ut)
           then Raise (DriverError ''InvalidRequest'' ''field exists'')
           else Return (km\<lparr>user_types := (user_types km)(tname \<mapsto>
                  ut\<lparr>ut_field_names := ut_field_names ut @ [db_field_name field]\<rparr>)\<rparr>)) = Return md'"
      using assms(2) AlterTypeAdd by simp
  next
    fix km km' :: keyspace_meta
    assume "(case user_types km tname of
         None \<Rightarrow> Raise (DriverError ''InvalidRequest'' ''unknown type'')
       | Some ut \<Rightarrow>
           if db_field_name field \<in> set (ut_field_names ut)
           then Raise (DriverError ''InvalidRequest'' ''field exists'')
           else Return (km\<lparr>user_types := (user_types km)(tname \<mapsto>
                  ut\<lparr>ut_field_names := ut_field_names ut @ [db_field_name field]\<rparr>)\<rparr>)) = Return km'"
    then show "keyspace_grows km km'"
      by (auto simp: keyspace_grows_def table_grows_refl type_grows_refl type_grows_def
            split: if_splits option.splits)
  qed
qed

lemma steps_ideal_grows:
  assumes "steps (ideal_driver loads) P md md'" and "\<And>q. P q \<Longrightarrow> additive q"
  shows "grows md md'"
  using assms(1)
proof (induction rule: steps.induct)
  case (steps_refl md)
  show ?case by (rule grows_refl)
next
  case (steps_execute md md1 q md2)
  then have "grows md1 md2"
    using execute_ideal_grows[of q md1 md2] assms(2) by (simp add: ideal_driver_def)
  then show ?case using steps_execute.IH grows_trans by blast
next
  case (steps_refresh md md1 ks n)
  then show ?case by (simp add: ideal_driver_def)
qed

text \<open>
  C3. Whatever the driver does and however \<^verbatim>\<open>sync_table\<close> ends, every statement it
  hands to \<^verbatim>\<open>execute\<close> is a \<^verbatim>\<open>CREATE\<close>, an \<^verbatim>\<open>ALTER ... ADD\<close> or an
  \<^verbatim>\<open>ALTER TABLE ... WITH\<close>, never a \<^verbatim>\<open>DROP\<close>. On the cluster that applies every
  statement the metadata only grows: a table that was live is live afterwards with at
  least the columns and indexes it had, and so is every other table, type and field.
\<close>

theorem sync_table_additive:
  assumes "sync_table drv model w = (r, w')"
  shows "(\<exists>new. executed w' = executed w @ new \<and> list_all additive new)
       \<and> (drv = ideal_driver loads \<longrightarrow>
            grows (keyspaces w) (keyspaces w')
            \<and> (\<forall>km tm. keyspaces w (keyspace model) = Some km
                   \<and> tables km (raw_column_family_name model) = Some tm \<longrightarrow>
                 (\<exists>km' tm'. keyspaces w' (keyspace model) = Some km'
                    \<and> tables km' (raw_column_family_name model) = Some tm'
                    \<and> set (tm_columns tm) \<subseteq> set (tm_columns tm')
                    \<and> set (tm_indexes tm) \<subseteq> set (tm_indexes tm'))))"
proof -
  have "type_stmts additive" by (simp add: type_stmts_def)
  moreover have "table_stmts model additive" by (simp add: table_stmts_def)
  ultimately have p: "post drv additive w w'" using assms by (rule post_sync_table)
  then have a: "\<exists>new. executed w' = executed w @ new \<and> list_all additive new"
    by (simp add: post_def)
  have b: "grows (keyspaces w) (keyspaces w')" if "drv = ideal_driver loads"
    using p that steps_ideal_grows[of loads additive "keyspaces w" "keyspaces w'"]
    by (simp add: post_def)
  have c: "\<exists>km' tm'. keyspaces w' (keyspace model) = Some km'
                    \<and> tables km' (raw_column_family_name model) = Some tm'
                    \<and> set (tm_columns tm) \<subseteq> set (tm_columns tm')
                    \<and> set (tm_indexes tm) \<subseteq> set (tm_indexes tm')"
    if h: "drv = ideal_driver loads" "keyspaces w (keyspace model) = Some km"
       "tables km (raw_column_family_name model) = Some tm" for km tm
  proof -
    from b[OF h(1)] h(2) obtain km' where km': "keyspaces w' (keyspace model) = Some km'"
      "keyspace_grows km km'" unfolding grows_def by blast
    then obtain tm' where "tables km' (raw_column_family_name model) = Some tm'" "table_grows tm tm'"
      using h(3) unfolding keyspace_grows_def by blast
    then show ?thesis using km' by (auto simp: table_grows_def)
  qed
  show ?thesis using a b c by blast
qed

theorem sync_table_additive_witness:
  "map_option tm_columns (tables (the (keyspaces (snd (sync_table (ideal_driver json_loads_flat)
      (ex_model [ex_id, ex_field ''v''] [])
      (ex_world [''t'' \<mapsto> ex_table [''old''] []] Map.empty))) ''ks'')) ''t'')
     = Some [''id'', ''old'', ''v'']
   \<and> grows (keyspaces (ex_world [''t'' \<mapsto> ex_table [''old''] []] Map.empty))
        (keyspaces (snd (sync_table (ideal_driver json_loads_flat)
           (ex_model [ex_id, ex_field ''v''] [])
           (ex_world [''t'' \<mapsto> ex_table [''old''] []] Map.empty))))
   \<and> (\<exists>new. executed (snd (sync_table (ideal_driver json_loads_flat)
           (ex_model [ex_id, ex_field ''v''] [])
           (ex_world [''t'' \<mapsto> ex_table [''old''] []] Map.empty)))
         = executed (ex_world [''t'' \<mapsto> ex_table [''old''] []] Map.empty) @ new
        \<and> list_all additive new)"
proof -
  let ?drv = "ideal_driver json_loads_flat"
  let ?m = "ex_model [ex_id, ex_field ''v''] []"
  let ?w = "ex_world [''t'' \<mapsto> ex_table [''old''] []] Map.empty"
  have h: "sync_table ?drv ?m ?w = (fst (sync_table ?drv ?m ?w), snd (sync_table ?drv ?m ?w))"
    by simp
  have e: "map_option tm_columns (tables (the (keyspaces (snd (sync_table ?drv ?m ?w)) ''ks'')) ''t'')
     = Some [''id'', ''old'', ''v'']"
    by code_simp
  from sync_table_additive[OF h, of json_loads_flat] e show ?thesis by blast
qed

section \<open>Synchronizing a type that exists\<close>

lemma for_each_alter_type_field:
  assumes "for_each (alter_type_field drv ks tn defined) fs w = (Return (), w')"
  shows "executed w' = executed w
           @ map (AlterTypeAdd ks tn) (filter (\<lambda>f. db_field_name f \<notin> set defined) fs)
       \<and> logged w' = logged w \<and> registered w' = registered w"
  using assms
proof (induction fs arbitrary: w)
  case Nil
  then show ?case by simp
next
  case (Cons f fs)
  obtain r1 w1 where b: "alter_type_field drv ks tn defined f w = (r1, w1)"
    by (cases "alter_type_field drv ks tn defined f w")
  then have r1: "r1 = Return ()" and fe: "for_each (alter_type_field drv ks tn defined) fs w1 = (Return (), w')"
    using Cons.prems by (cases r1; simp)+
  have "executed w1 = executed w @ (if db_field_name f \<notin> set defined then [AlterTypeAdd ks tn f] else [])
      \<and> logged w1 = logged w \<and> registered w1 = registered w"
    using b r1 by (auto simp: alter_type_field_def do_execute_def split: if_splits result.splits)
  then show ?case using Cons.IH[OF fe] by simp
qed

text \<open>
  C9, as amended. When a type that exists is synchronized and no statement fails, the
  statements executed for the type itself are one \<^verbatim>\<open>ALTER TYPE ... ADD\<close> for each
  declared field whose name is not among the live field names read before the pass, in
  declaration order, and nothing else. So no statement is executed iff every declared
  field name is live already. When the number of live field names read before the pass
  equals the number of declared field names, the only further effect is the message that
  no synchronization was required.
\<close>

theorem sync_type_body_existing:
  assumes "keyspaces w ks_name = Some km"
    and "user_types km (type_name t) = Some ut"
    and "sync_type_body drv ks_name t w = (Return (), w')"
  shows "executed w' = executed w
           @ map (AlterTypeAdd ks_name (type_name t))
               (filter (\<lambda>f. db_field_name f \<notin> set (ut_field_names ut)) (map snd (type_fields t)))
       \<and> (executed w' = executed w \<longleftrightarrow>
            (\<forall>f \<in> snd ` set (type_fields t). db_field_name f \<in> set (ut_field_names ut)))
       \<and> (length (ut_field_names ut) = card (set (map (\<lambda>f. db_field_name (snd f)) (type_fields t))) \<longrightarrow>
            logged w' = logged w @ [InfoTypeNoSync ks_name (type_name t)])"
proof -
  obtain r1 w1 where e: "for_each (alter_type_field drv ks_name (type_name t) (ut_field_names ut))
                          (map snd (type_fields t)) w = (r1, w1)"
    by (cases "for_each (alter_type_field drv ks_name (type_name t) (ut_field_names ut))
                          (map snd (type_fields t)) w")
  have r1: "r1 = Return ()" using assms e by (cases r1) (auto simp: sync_type_body_def)
  then have w': "w' = log_type_fields ks_name t (ut_field_names ut) (register_for_keyspace t ks_name w1)"
    using assms e by (simp add: sync_type_body_def)
  note fe = for_each_alter_type_field[OF e[unfolded r1]]
  have ex: "executed w' = executed w1"
    by (simp add: w' log_type_fields_def Let_def log_info_def register_for_keyspace_def)
  have a: "executed w' = executed w
           @ map (AlterTypeAdd ks_name (type_name t))
               (filter (\<lambda>f. db_field_name f \<notin> set (ut_field_names ut)) (map snd (type_fields t)))"
    using fe ex by simp
  have b: "executed w' = executed w \<longleftrightarrow>
            (\<forall>f \<in> snd ` set (type_fields t). db_field_name f \<in> set (ut_field_names ut))"
    unfolding a by (auto simp: filter_empty_conv)
  have "logged w1 = logged w" using fe by simp
  then have c: "length (ut_field_names ut) = card (set (map (\<lambda>f. db_field_name (snd f)) (type_fields t))) \<longrightarrow>
            logged w' = logged w @ [InfoTypeNoSync ks_name (type_name t)]"
    by (simp add: w' log_type_fields_def Let_def log_info_def register_for_keyspace_def)
  show ?thesis using a b c by blast
qed

theorem sync_type_body_existing_witness:
  "executed (snd (sync_type_body (ideal_driver json_loads_flat) ''ks''
        (UserType ''u'' [ex_field ''a'', ex_field ''b''])
        (ex_world Map.empty [''u'' \<mapsto> \<lparr>ut_field_names = [''a'', ''b'']\<rparr>])))
     = executed (ex_world Map.empty [''u'' \<mapsto> \<lparr>ut_field_names = [''a'', ''b'']\<rparr>])
   \<and> logged (snd (sync_type_body (ideal_driver json_loads_flat) ''ks''
        (UserType ''u'' [ex_field ''a'', ex_field ''b''])
        (ex_world Map.empty [''u'' \<mapsto> \<lparr>ut_field_names = [''a'', ''b'']\<rparr>])))
     = logged (ex_world Map.empty [''u'' \<mapsto> \<lparr>ut_field_names = [''a'', ''b'']\<rparr>])
         @ [InfoTypeNoSync ''ks'' ''u'']"
proof -
  let ?drv = "ideal_driver json_loads_flat"
  let ?t = "UserType ''u'' [ex_field ''a'', ex_field ''b'']"
  let ?ut = "\<lparr>ut_field_names = [''a'', ''b'']\<rparr>"
  let ?w = "ex_world Map.empty [''u'' \<mapsto> ?ut]"
  have h1: "keyspaces ?w ''ks'' = Some \<lparr>tables = Map.empty, user_types = [''u'' \<mapsto> ?ut]\<rparr>"
    by (simp add: ex_world_def)
  have h2: "user_types \<lparr>tables = Map.empty, user_types = [''u'' \<mapsto> ?ut]\<rparr> (type_name ?t) = Some ?ut"
    by simp
  have h3: "sync_type_body ?drv ''ks'' ?t ?w = (Return (), snd (sync_type_body ?drv ''ks'' ?t ?w))"
    by (simp add: sync_type_body_def ex_world_def ex_field_def alter_type_field_def)
  have h4: "\<forall>f \<in> snd ` set (type_fields ?t). db_field_name f \<in> set (ut_field_names ?ut)"
    by (simp add: ex_field_def)
  have h5: "length (ut_field_names ?ut) = card (set (map (\<lambda>f. db_field_name (snd f)) (type_fields ?t)))"
    by (simp add: ex_field_def)
  from sync_type_body_existing[OF h1 h2 h3] h4 h5 show ?thesis by simp
qed

text \<open>
  C9 as stated fails. With live fields \<open>a\<close>, \<open>b\<close> and declared fields \<open>a\<close>, \<open>c\<close> the
  counts read by \<^verbatim>\<open>_sync_type\<close> are equal, and an \<^verbatim>\<open>ALTER TYPE ... ADD\<close> is executed
  before the message that no synchronization was required. With live field \<open>a\<close> and
  declared fields \<open>a\<close>, \<open>b\<close> the live count after the pass equals the declared count, and
  a statement was executed as well.
\<close>

theorem sync_type_body_existing_counterexample:
  "length [''a'', ''b''] = card (set (map (\<lambda>f. db_field_name (snd f)) [ex_field ''a'', ex_field ''c'']))
   \<and> executed (snd (sync_type_body (ideal_driver json_loads_flat) ''ks''
        (UserType ''u'' [ex_field ''a'', ex_field ''c''])
        (ex_world Map.empty [''u'' \<mapsto> \<lparr>ut_field_names = [''a'', ''b'']\<rparr>])))
       = [AlterTypeAdd ''ks'' ''u'' (snd (ex_field ''c''))]
   \<and> logged (snd (sync_type_body (ideal_driver json_loads_flat) ''ks''
        (UserType ''u'' [ex_field ''a'', ex_field ''c''])
        (ex_world Map.empty [''u'' \<mapsto> \<lparr>ut_field_names = [''a'', ''b'']\<rparr>])))
       = [InfoTypeNoSync ''ks'' ''u'']
   \<and> map_option ut_field_names (user_types (the (keyspaces (snd (sync_type_body
        (ideal_driver json_loads_flat) ''ks'' (UserType ''u'' [ex_field ''a'', ex_field ''b''])
        (ex_world Map.empty [''u'' \<mapsto> \<lparr>ut_field_names = [''a'']\<rparr>]))) ''ks'')) ''u'')
       = Some [''a'', ''b'']
   \<and> executed (snd (sync_type_body (ideal_driver json_loads_flat) ''ks''
        (UserType ''u'' [ex_field ''a'', ex_field ''b''])
        (ex_world Map.empty [''u'' \<mapsto> \<lparr>ut_field_names = [''a'']\<rparr>])))
       = [AlterTypeAdd ''ks'' ''u'' (snd (ex_field ''b''))]"
  by code_simp

section \<open>A table creation that fails\<close>

lemma create_table_raise:
  assumes "execute drv (CreateTable model) (keyspaces w) = Raise ex"
  shows "create_table drv model w =
     (if already_exists ex then (Return (), w\<lparr>executed := executed w @ [CreateTable model]\<rparr>)
      else (Raise ex, w\<lparr>executed := executed w @ [CreateTable model]\<rparr>))"
  using assms by (simp add: create_table_def do_execute_def)

text \<open>
  C7, as amended. When the table is not in the metadata and executing the
  \<^verbatim>\<open>CREATE TABLE\<close> statement fails, \<^verbatim>\<open>sync_table\<close> swallows the failure iff it is a
  \<^verbatim>\<open>CQLEngineException\<close> whose message contains
  \<^verbatim>\<open>Cannot add already existing column family\<close>, and then goes on with the second read
  of the table metadata and the indexes; every other failure is raised to the caller as
  it is.
\<close>

theorem sync_table_create_failure:
  assumes "is_model model" and "\<not> is_abstract model"
    and "keyspaces (snd (allow_schema_modification w)) (keyspace model) = Some km"
    and "tables km (raw_column_family_name model) = None"
    and "sync_table_types drv (keyspace model) (map snd (columns model)) {}
           (snd (allow_schema_modification w)) = (Return s, w1)"
    and "execute drv (CreateTable model) (keyspaces w1) = Raise ex"
  shows "sync_table drv model w =
     (if (\<exists>msg. ex = CQLEngineException msg
              \<and> contains ''Cannot add already existing column family'' msg)
      then sync_indexes drv model (w1\<lparr>executed := executed w1 @ [CreateTable model]\<rparr>)
      else (Raise ex, w1\<lparr>executed := executed w1 @ [CreateTable model]\<rparr>))"
proof -
  obtain w0 where a: "allow_schema_modification w = (True, w0)"
    by (simp add: allow_schema_modification_def)
  have ae: "already_exists ex \<longleftrightarrow> (\<exists>msg. ex = CQLEngineException msg
              \<and> contains ''Cannot add already existing column family'' msg)"
    by (cases ex) (simp_all add: already_exists_def)
  have w0: "w0 = snd (allow_schema_modification w)" using a by simp
  show ?thesis
  proof (cases "already_exists ex")
    case True
    then have "create_table drv model w1 = (Return (), w1\<lparr>executed := executed w1 @ [CreateTable model]\<rparr>)"
      using create_table_raise[OF assms(6)] by simp
    then have st: "sync_table drv model w = sync_indexes drv model (w1\<lparr>executed := executed w1 @ [CreateTable model]\<rparr>)"
      unfolding sync_table_def a using assms(1-5) w0 by simp
    have c: "\<exists>msg. ex = CQLEngineException msg
              \<and> contains ''Cannot add already existing column family'' msg"
      using True ae by blast
    show ?thesis by (subst if_P[OF c]) (rule st)
  next
    case False
    then have "create_table drv model w1 = (Raise ex, w1\<lparr>executed := executed w1 @ [CreateTable model]\<rparr>)"
      using create_table_raise[OF assms(6)] by simp
    then have st: "sync_table drv model w = (Raise ex, w1\<lparr>executed := executed w1 @ [CreateTable model]\<rparr>)"
      unfolding sync_table_def a using assms(1-5) w0 by simp
    have c: "\<not> (\<exists>msg. ex = CQLEngineException msg
              \<and> contains ''Cannot add already existing column family'' msg)"
      using False ae by blast
    show ?thesis by (subst if_not_P[OF c]) (rule st)
  qed
qed

theorem sync_table_create_failure_witness:
  "sync_table
        \<lparr>execute = (\<lambda>q md. Raise (CQLEngineException
                      ''Cannot add already existing column family t to keyspace ks'')),
         refresh_user_type_metadata = (\<lambda>ks n md. md), json_loads = json_loads_flat\<rparr>
        (ex_model [ex_id] []) (ex_world Map.empty Map.empty)
     = (Raise (KeyError ''t''), (ex_world Map.empty Map.empty)\<lparr>executed := [CreateTable (ex_model [ex_id] [])]\<rparr>)"
proof -
  let ?drv = "\<lparr>execute = (\<lambda>q md. Raise (CQLEngineException
                      ''Cannot add already existing column family t to keyspace ks'')),
         refresh_user_type_metadata = (\<lambda>ks n md. md), json_loads = json_loads_flat\<rparr>"
  let ?m = "ex_model [ex_id] []"
  let ?w = "ex_world Map.empty Map.empty"
  have h0: "snd (allow_schema_modification ?w) = ?w"
    by (simp add: allow_schema_modification_def ex_world_def)
  have h1: "is_model ?m" by (simp add: ex_model_def)
  have h2: "\<not> is_abstract ?m" by (simp add: ex_model_def)
  have h3: "keyspaces (snd (allow_schema_modification ?w)) (keyspace ?m)
      = Some \<lparr>tables = Map.empty, user_types = Map.empty\<rparr>"
    by (simp add: h0) (simp add: ex_model_def ex_world_def)
  have h4: "tables \<lparr>tables = Map.empty, user_types = Map.empty\<rparr> (raw_column_family_name ?m) = None"
    by simp
  have h5: "sync_table_types ?drv (keyspace ?m) (map snd (columns ?m)) {}
           (snd (allow_schema_modification ?w)) = (Return {}, ?w)"
    by (simp add: h0) (simp add: ex_model_def ex_id_def)
  have h6: "execute ?drv (CreateTable ?m) (keyspaces ?w) = Raise (CQLEngineException
                      ''Cannot add already existing column family t to keyspace ks'')"
    by simp
  have h7: "contains ''Cannot add already existing column family''
     ''Cannot add already existing column family t to keyspace ks''" by code_simp
  have h8: "sync_indexes ?drv ?m (?w\<lparr>executed := executed ?w @ [CreateTable ?m]\<rparr>)
     = (Raise (KeyError ''t''), ?w\<lparr>executed := [CreateTable ?m]\<rparr>)"
    by (simp add: sync_indexes_def get_table_metadata_def ex_model_def ex_world_def)
  from sync_table_create_failure[OF h1 h2 h3 h4 h5 h6] h7 h8 show ?thesis
    by (simp del: contains.simps)
qed

text \<open>
  C7 as stated fails: a failure of another class with the same message is not swallowed.
\<close>

theorem sync_table_create_failure_counterexample:
  "contains ''Cannot add already existing column family''
      (exn_message (DriverError ''AlreadyExists'' ''Cannot add already existing column family t to keyspace ks''))
   \<and> fst (sync_table
        \<lparr>execute = (\<lambda>q md. Raise (DriverError ''AlreadyExists''
                      ''Cannot add already existing column family t to keyspace ks'')),
         refresh_user_type_metadata = (\<lambda>ks n md. md), json_loads = json_loads_flat\<rparr>
        (ex_model [ex_id] []) (ex_world Map.empty Map.empty))
     = Raise (DriverError ''AlreadyExists'' ''Cannot add already existing column family t to keyspace ks'')"
  by code_simp

section \<open>Types reached from several columns\<close>

text \<open>
  C2 fails on the code. \<^verbatim>\<open>sync_table\<close> never adds to \<^verbatim>\<open>syncd_types\<close>, and
  \<^verbatim>\<open>_sync_type\<close> replaces the empty set it is given by a fresh one, so a type is
  synchronized once for every column that reaches it: two columns of type \<open>a\<close> register
  \<open>a\<close> twice, and one column of type \<open>a\<close> with a field of type \<open>b\<close> registers \<open>b\<close>
  twice, once for the column and once more inside \<open>a\<close>.
\<close>

theorem sync_table_registers_type_twice:
  "map snd (registered (snd (sync_table (ideal_driver json_loads_flat)
     (ex_model [ex_id,
        (''a1'', Column ''a1'' False False False ''a1 frozen<a>'' (UserDefinedType (UserType ''a'' [ex_field ''x'']))),
        (''a2'', Column ''a2'' False False False ''a2 frozen<a>'' (UserDefinedType (UserType ''a'' [ex_field ''x''])))] [])
     (ex_world Map.empty Map.empty))))
   = [UserType ''a'' [ex_field ''x''], UserType ''a'' [ex_field ''x'']]
  \<and> map snd (registered (snd (sync_table (ideal_driver json_loads_flat)
     (ex_model [ex_id,
        (''a1'', Column ''a1'' False False False ''a1 frozen<a>''
           (UserDefinedType (UserType ''a''
              [(''b'', Column ''b'' False False False ''b frozen<b>'' (UserDefinedType (UserType ''b'' [ex_field ''x''])))])))] [])
     (ex_world Map.empty Map.empty))))
   = [UserType ''b'' [ex_field ''x''], UserType ''b'' [ex_field ''x''],
      UserType ''a'' [(''b'', Column ''b'' False False False ''b frozen<b>'' (UserDefinedType (UserType ''b'' [ex_field ''x''])))]]"
  by code_simp

section \<open>Unknown options and options of the wrong shape\<close>

lemma diff_options_undefined_raises:
  assumes "(n, v) \<in> set desired"
    and "map_of live n = None \<or> (\<exists>s d. v = Str s \<and> map_of live n = Some (Dict d))"
  shows "\<exists>e. diff_options desired live acc = Raise e"
proof (cases "diff_options desired live acc")
  case (Return upd)
  from diff_options_defined[OF Return assms(1)] assms(2) show ?thesis by auto
next
  case (Raise e)
  then show ?thesis by simp
qed

lemma diff_options_passes:
  "list_all (passes live) pre \<Longrightarrow> \<exists>acc'. diff_options (pre @ rest) live acc = diff_options rest live acc'"
proof (induction pre arbitrary: acc)
  case Nil
  show ?case by auto
next
  case (Cons nv pre)
  obtain n v where nv: "nv = (n, v)" by (cases nv)
  from Cons.prems have p: "passes live (n, v)" and ps: "list_all (passes live) pre" by (auto simp: nv)
  from p obtain acc1 where "diff_options ((n, v) # pre @ rest) live acc = diff_options (pre @ rest) live acc1"
    by (auto simp: passes_def split: option.splits optval.splits)
  then show ?case using Cons.IH[OF ps, of acc1] nv by auto
qed

lemma update_options_eq:
  assumes "get_table_metadata model w = Return tm"
    and "options_map_from_strings (json_loads drv) (remdups (tm_option_strings tm)) = Return live"
    and "options_map_from_strings (json_loads drv) (option_strings model) = Return desired"
  shows "update_options drv model w =
     (case diff_options desired live [] of
        Raise e \<Rightarrow> (Raise e, w)
      | Return upd \<Rightarrow>
          (if upd \<noteq> []
           then (case do_execute drv (AlterTableWith (keyspace model) (raw_column_family_name model) upd) w of
                   (Raise e, w1) \<Rightarrow> (Raise e, w1)
                 | (Return u, w1) \<Rightarrow> (Return True, w1))
           else (Return False, w)))"
  using assms by (simp add: update_options_def)

lemma starts_with_append: "starts_with p (p @ s)"
  by (induction p) auto

lemma contains_append: "contains p (a @ p @ b)"
proof (induction a)
  case Nil
  show ?case using starts_with_append[of p b] by (cases "p @ b") auto
next
  case (Cons c a)
  then show ?case by simp
qed

lemma contains_name: "contains name (invalid_option_message name live)"
proof -
  have "invalid_option_message name live =
      (''Invalid table option: '' @ [sq]) @ name @ ([sq] @ ''; known options: '' @ repr_keys (map fst live))"
    by (simp add: invalid_option_message_def)
  then show ?thesis using contains_append by metis
qed

text \<open>
  C6, as amended. When the live and the desired clauses decode and some desired option
  name is absent from the live normalised map, \<^verbatim>\<open>_update_options\<close> raises and leaves
  the world as it was: no \<^verbatim>\<open>ALTER TABLE ... WITH\<close> is executed. When every desired
  option before the absent one passes the loop, the exception is the \<^verbatim>\<open>KeyError\<close>
  whose message names the absent option.
\<close>

theorem update_options_unknown_option:
  assumes "get_table_metadata model w = Return tm"
    and "options_map_from_strings (json_loads drv) (remdups (tm_option_strings tm)) = Return live"
    and "options_map_from_strings (json_loads drv) (option_strings model) = Return desired"
    and "desired = pre @ (name, value) # rest"
    and "map_of live name = None"
  shows "(\<exists>e. update_options drv model w = (Raise e, w))
       \<and> (list_all (passes live) pre \<longrightarrow>
            update_options drv model w = (Raise (KeyError (invalid_option_message name live)), w))
       \<and> contains name (invalid_option_message name live)"
proof -
  have "(name, value) \<in> set desired" using assms(4) by simp
  then obtain e where "diff_options desired live [] = Raise e"
    using diff_options_undefined_raises assms(5) by blast
  then have a: "\<exists>e. update_options drv model w = (Raise e, w)"
    using update_options_eq[OF assms(1-3)] by simp
  have b: "update_options drv model w = (Raise (KeyError (invalid_option_message name live)), w)"
    if "list_all (passes live) pre"
  proof -
    from diff_options_passes[OF that] obtain acc' where
      "diff_options desired live [] = diff_options ((name, value) # rest) live acc'"
      unfolding assms(4) by blast
    then have "diff_options desired live [] = Raise (KeyError (invalid_option_message name live))"
      using assms(5) by simp
    then show ?thesis using update_options_eq[OF assms(1-3)] by simp
  qed
  show ?thesis using a b contains_name by blast
qed

theorem update_options_unknown_option_witness:
  "update_options (ideal_driver json_loads_flat) (ex_model [ex_id] [''x = 1'', ''z = 2''])
     (ex_world [''t'' \<mapsto> ex_table [] [''x = 1'']] Map.empty)
   = (Raise (KeyError (invalid_option_message ''z'' [(''x'', Str ''1'')])),
      ex_world [''t'' \<mapsto> ex_table [] [''x = 1'']] Map.empty)
   \<and> contains ''z'' (invalid_option_message ''z'' [(''x'', Str ''1'')])"
proof -
  let ?drv = "ideal_driver json_loads_flat"
  let ?m = "ex_model [ex_id] [''x = 1'', ''z = 2'']"
  let ?w = "ex_world [''t'' \<mapsto> ex_table [] [''x = 1'']] Map.empty"
  have h1: "get_table_metadata ?m ?w = Return (ex_table [] [''x = 1''])"
    by (simp add: get_table_metadata_def ex_model_def ex_world_def)
  have h2: "options_map_from_strings (json_loads ?drv) (remdups (tm_option_strings (ex_table [] [''x = 1''])))
      = Return [(''x'', Str ''1'')]"
    by code_simp
  have h3: "options_map_from_strings (json_loads ?drv) (option_strings ?m)
      = Return [(''x'', Str ''1''), (''z'', Str ''2'')]"
    by code_simp
  have h4: "[(''x'', Str ''1''), (''z'', Str ''2'')] = [(''x'', Str ''1'')] @ (''z'', Str ''2'') # []"
    by simp
  have h5: "map_of [(''x'', Str ''1'')] ''z'' = None" by simp
  have h6: "list_all (passes [(''x'', Str ''1'')]) [(''x'', Str ''1'')]"
    by (simp add: passes_def)
  from update_options_unknown_option[OF h1 h2 h3 h4 h5] h6 show ?thesis by blast
qed

text \<open>
  C6 as stated fails: with two unknown options the error names the first one only.
\<close>

theorem update_options_unknown_option_counterexample:
  "options_map_from_strings json_loads_flat [''x = 1'', ''z = 2'']
     = Return [(''x'', Str ''1''), (''z'', Str ''2'')]
   \<and> options_map_from_strings json_loads_flat [] = Return []
   \<and> ''z'' \<in> fst ` set [(''x'', Str ''1''), (''z'', Str ''2'')]
   \<and> map_of ([] :: options) ''z'' = None
   \<and> fst (update_options (ideal_driver json_loads_flat) (ex_model [ex_id] [''x = 1'', ''z = 2''])
          (ex_world [''t'' \<mapsto> ex_table [] []] Map.empty))
       = Raise (KeyError (''Invalid table option: '' @ [sq] @ ''x'' @ [sq] @ ''; known options: []''))
   \<and> \<not> contains ''z'' (''Invalid table option: '' @ [sq] @ ''x'' @ [sq] @ ''; known options: []'')"
  by code_simp

text \<open>
  C10. When the live and the desired clauses decode, and some desired option is a scalar
  whose live value is a nested map, the loop of \<^verbatim>\<open>_update_options\<close> returns no diff:
  it raises, the exception reaches the caller of \<^verbatim>\<open>_update_options\<close>, and nothing is
  executed. When every desired option before it passes the loop, the exception is the
  \<^verbatim>\<open>AttributeError\<close> of \<^verbatim>\<open>value.items()\<close> on a string.
\<close>

theorem update_options_shape_mismatch:
  assumes "get_table_metadata model w = Return tm"
    and "options_map_from_strings (json_loads drv) (remdups (tm_option_strings tm)) = Return live"
    and "options_map_from_strings (json_loads drv) (option_strings model) = Return desired"
    and "desired = pre @ (name, Str s) # rest"
    and "map_of live name = Some (Dict d)"
  shows "(\<exists>e. diff_options desired live [] = Raise e \<and> update_options drv model w = (Raise e, w))
       \<and> (list_all (passes live) pre \<longrightarrow>
            diff_options desired live [] = Raise (AttributeError ''str object has no attribute items''))"
proof -
  have "(name, Str s) \<in> set desired" using assms(4) by simp
  then obtain e where e: "diff_options desired live [] = Raise e"
    using diff_options_undefined_raises assms(5) by blast
  then have a: "update_options drv model w = (Raise e, w)"
    using update_options_eq[OF assms(1-3)] by simp
  have b: "diff_options desired live [] = Raise (AttributeError ''str object has no attribute items'')"
    if "list_all (passes live) pre"
  proof -
    from diff_options_passes[OF that] obtain acc' where
      "diff_options desired live [] = diff_options ((name, Str s) # rest) live acc'"
      unfolding assms(4) by blast
    then show ?thesis using assms(5) by simp
  qed
  show ?thesis using a b e by blast
qed


theorem update_options_shape_mismatch_witness:
  "diff_options [(''gc'', Str ''1''), (''compaction'', Str ''L'')]
      [(''gc'', Str ''1''), (''compaction'', Dict [(''class'', JString ''L'')])] []
     = Raise (AttributeError ''str object has no attribute items'')
   \<and> update_options (ideal_driver json_loads_flat)
        (ex_model [ex_id] [''gc = 1'', ''compaction = L''])
        (ex_world [''t'' \<mapsto> ex_table [] [''gc = 1'',
            ''compaction = {'' @ [sq] @ ''class'' @ [sq] @ '': '' @ [sq] @ ''L'' @ [sq] @ ''}'']] Map.empty)
     = (Raise (AttributeError ''str object has no attribute items''),
        ex_world [''t'' \<mapsto> ex_table [] [''gc = 1'',
            ''compaction = {'' @ [sq] @ ''class'' @ [sq] @ '': '' @ [sq] @ ''L'' @ [sq] @ ''}'']] Map.empty)"
proof -
  let ?drv = "ideal_driver json_loads_flat"
  let ?m = "ex_model [ex_id] [''gc = 1'', ''compaction = L'']"
  let ?tm = "ex_table [] [''gc = 1'',
            ''compaction = {'' @ [sq] @ ''class'' @ [sq] @ '': '' @ [sq] @ ''L'' @ [sq] @ ''}'']"
  let ?w = "ex_world [''t'' \<mapsto> ?tm] Map.empty"
  let ?live = "[(''gc'', Str ''1''), (''compaction'', Dict [(''class'', JString ''L'')])]"
  let ?des = "[(''gc'', Str ''1''), (''compaction'', Str ''L'')]"
  have h1: "get_table_metadata ?m ?w = Return ?tm"
    by (simp add: get_table_metadata_def ex_model_def ex_world_def)
  have h2: "options_map_from_strings (json_loads ?drv) (remdups (tm_option_strings ?tm)) = Return ?live"
    by code_simp
  have h3: "options_map_from_strings (json_loads ?drv) (option_strings ?m) = Return ?des"
    by code_simp
  have h4: "?des = [(''gc'', Str ''1'')] @ (''compaction'', Str ''L'') # []" by simp
  have h5: "map_of ?live ''compaction'' = Some (Dict [(''class'', JString ''L'')])" by simp
  have h6: "list_all (passes ?live) [(''gc'', Str ''1'')]" by (simp add: passes_def)
  from update_options_shape_mismatch[OF h1 h2 h3 h4 h5] h6 show ?thesis by force
qed

section \<open>Decoding option clauses\<close>

lemma split_on_notin: "c \<notin> set s \<Longrightarrow> split_on c s = [s]"
  by (induction s) auto

lemma split_on_append: "c \<notin> set a \<Longrightarrow> split_on c (a @ c # b) = a # split_on c b"
  by (induction a) auto

lemma find_char_None: "find_char c s = None \<longleftrightarrow> c \<notin> set s"
  by (induction s) (auto split: option.splits)

lemma find_char_Some: "find_char c s = Some i \<Longrightarrow> drop i s = dropWhile (\<lambda>x. x \<noteq> c) s"
  by (induction s arbitrary: i) (auto split: option.splits if_splits)

lemma find_char_less: "find_char c s = Some i \<Longrightarrow> i < length s"
  by (induction s arbitrary: i) (auto split: option.splits if_splits)

lemma rfind_char_None: "rfind_char c s = None \<longleftrightarrow> c \<notin> set s"
  using find_char_None[of c "rev s"] by (auto simp: rfind_char_def split: option.splits)

lemma rfind_char_Some:
  assumes "rfind_char c s = Some j"
  shows "take (j + 1) s = rev (dropWhile (\<lambda>x. x \<noteq> c) (rev s))"
proof -
  from assms obtain i where i: "find_char c (rev s) = Some i" and j: "j = length s - 1 - i"
    by (auto simp: rfind_char_def split: option.splits)
  have il: "i < length s" using find_char_less[OF i] by simp
  have "rev (dropWhile (\<lambda>x. x \<noteq> c) (rev s)) = rev (drop i (rev s))"
    using find_char_Some[OF i] by simp
  also have "\<dots> = take (length s - i) s" by (simp add: rev_drop)
  also have "length s - i = j + 1" using il j by simp
  finally show ?thesis by simp
qed

lemma drop_rev_dropWhile:
  "drop i (rev (dropWhile P (rev xs))) = rev (dropWhile P (rev (drop i xs)))"
proof -
  have xs: "xs = take i xs @ drop i xs" by simp
  show ?thesis
  proof (cases "\<forall>x \<in> set (drop i xs). P x")
    case True
    then have r: "dropWhile P (rev (drop i xs)) = []" by simp
    have "dropWhile P (rev xs) = dropWhile P (rev (drop i xs) @ rev (take i xs))"
      by (metis xs rev_append)
    also have "\<dots> = dropWhile P (rev (take i xs))"
      by (rule dropWhile_append2) (use True in auto)
    finally have "length (rev (dropWhile P (rev xs))) \<le> i"
      using length_dropWhile_le[of P "rev (take i xs)"] by simp
    then show ?thesis using r by simp
  next
    case False
    then obtain x where x: "x \<in> set (rev (drop i xs))" "\<not> P x" by auto
    have il: "i \<le> length xs" using False by (cases "i \<le> length xs") auto
    have "dropWhile P (rev xs) = dropWhile P (rev (drop i xs) @ rev (take i xs))"
      by (metis xs rev_append)
    also have "\<dots> = dropWhile P (rev (drop i xs)) @ rev (take i xs)"
      using x by (simp add: dropWhile_append1)
    finally have "rev (dropWhile P (rev xs)) = take i xs @ rev (dropWhile P (rev (drop i xs)))"
      by simp
    then show ?thesis using il by simp
  qed
qed

lemma brace_slice:
  "slice i (case rfind_char c s of None \<Rightarrow> 0 | Some j \<Rightarrow> j + 1) s
     = rev (dropWhile (\<lambda>x. x \<noteq> c) (rev (drop i s)))"
proof (cases "rfind_char c s")
  case None
  then have "c \<notin> set s" by (simp add: rfind_char_None)
  then have "c \<notin> set (drop i s)" by (meson in_set_dropD)
  then have "dropWhile (\<lambda>x. x \<noteq> c) (rev (drop i s)) = []" by auto
  then show ?thesis using None by (simp add: slice_def)
next
  case (Some j)
  have "slice i (j + 1) s = drop i (take (j + 1) s)"
    by (simp add: slice_def drop_take)
  also have "\<dots> = drop i (rev (dropWhile (\<lambda>x. x \<noteq> c) (rev s)))"
    using rfind_char_Some[OF Some] by simp
  also have "\<dots> = rev (dropWhile (\<lambda>x. x \<noteq> c) (rev (drop i s)))"
    by (rule drop_rev_dropWhile)
  finally show ?thesis using Some by simp
qed

text \<open>
  C8, as amended. A clause with one \<open>=\<close> is decoded by what follows the \<open>=\<close>. When that
  value has a brace \<open>{\<close> anywhere, the text from its first \<open>{\<close> to its last \<open>}\<close>, with
  every single quote turned into a double quote, goes to the JSON reader, and the
  dictionary read is stored under the stripped name (an exception of the reader is
  raised). When the value has no \<open>{\<close>, the stripped value is stored as a scalar under the
  stripped name.
\<close>

theorem option_from_string_brace:
  assumes "CHR ''='' \<notin> set name" and "CHR ''='' \<notin> set value"
  shows "option_from_string loads (name @ ''='' @ value) =
     (if CHR ''{'' \<in> set value
      then (case loads (replace_char sq dq
                    (rev (dropWhile (\<lambda>c. c \<noteq> CHR ''}'')
                       (rev (dropWhile (\<lambda>c. c \<noteq> CHR ''{'') value))))) of
              Return d \<Rightarrow> Return (strip name, Dict d)
            | Raise e \<Rightarrow> Raise e)
      else Return (strip name, Str (strip value)))"
proof -
  have sp: "split_on (CHR ''='') (name @ ''='' @ value) = [name, value]"
    using split_on_append[OF assms(1), of "value"] split_on_notin[OF assms(2)] by simp
  show ?thesis
  proof (cases "find_char (CHR ''{'') value")
    case None
    then have "CHR ''{'' \<notin> set value" by (simp add: find_char_None)
    then show ?thesis using None sp by (simp add: option_from_string_def)
  next
    case (Some i)
    then have m: "CHR ''{'' \<in> set value" using find_char_None[of "CHR ''{''" "value"] by auto
    have "slice i (case rfind_char (CHR ''}'') value of None \<Rightarrow> 0 | Some j \<Rightarrow> j + 1) value
        = rev (dropWhile (\<lambda>c. c \<noteq> CHR ''}'') (rev (dropWhile (\<lambda>c. c \<noteq> CHR ''{'') value)))"
      using brace_slice[of i "CHR ''}''" "value"] find_char_Some[OF Some] by simp
    then show ?thesis using Some sp m by (simp add: option_from_string_def Let_def)
  qed
qed

theorem option_from_string_brace_witness:
  "option_from_string json_loads_flat
     (''compaction '' @ ''='' @ '' {'' @ [sq] @ ''class'' @ [sq] @ '': '' @ [sq] @ ''L'' @ [sq] @ ''}'')
   = Return (''compaction'', Dict [(''class'', JString ''L'')])"
proof -
  have h1: "CHR ''='' \<notin> set ''compaction ''" by simp
  have h2: "CHR ''='' \<notin> set ('' {'' @ [sq] @ ''class'' @ [sq] @ '': '' @ [sq] @ ''L'' @ [sq] @ ''}'')"
    by (simp add: sq_def)
  have h3: "json_loads_flat (replace_char sq dq
                    (rev (dropWhile (\<lambda>c. c \<noteq> CHR ''}'')
                       (rev (dropWhile (\<lambda>c. c \<noteq> CHR ''{'')
                          ('' {'' @ [sq] @ ''class'' @ [sq] @ '': '' @ [sq] @ ''L'' @ [sq] @ ''}''))))))
      = Return [(''class'', JString ''L'')]"
    by code_simp
  have h4: "strip ''compaction '' = ''compaction''" by code_simp
  from option_from_string_brace[OF h1 h2, of json_loads_flat] h3 h4 show ?thesis
    by (simp add: sq_def)
qed

text \<open>
  C8 as stated fails: a value that is no map literal and does not start with a brace,
  here the quoted comment \<^verbatim>\<open>'a {b} c'\<close>, is not kept as a scalar; the text between
  its braces goes to the JSON reader.
\<close>

theorem option_from_string_brace_counterexample:
  "\<not> starts_with ''{'' (strip ('' '' @ [sq] @ ''a {b} c'' @ [sq]))
   \<and> option_from_string json_loads_flat (''comment = '' @ [sq] @ ''a {b} c'' @ [sq])
       = Raise (ValueError ''No JSON object could be decoded'')
   \<and> option_from_string json_loads_flat (''comment = '' @ [sq] @ ''a {b} c'' @ [sq])
       \<noteq> Return (''comment'', Str (strip ('' '' @ [sq] @ ''a {b} c'' @ [sq])))"
  by code_simp

end
